theory Spec2Isabelle
  imports Main "HOL-Library.Word" "HOL-Library.Sublist"
begin

section \<open>JavaScript strings and the primitives the export engine uses\<close>

text \<open>
  A JavaScript string is a sequence of 16-bit code units. String literals of the source
  are written through \<open>js\<close>, which reads an ASCII literal as code units. An optional
  (possibly \<open>undefined\<close> or \<open>null\<close>) string field is a \<open>jsstr option\<close>.
\<close>

type_synonym cunit = "16 word"
type_synonym jsstr = "cunit list"
type_synonym byte = "8 word"

definition js :: "string \<Rightarrow> jsstr" where
  "js s = map of_char s"

definition CRLF :: jsstr where
  "CRLF = [0x0D, 0x0A]"

definition BASE64_LINE_LENGTH :: nat where
  "BASE64_LINE_LENGTH = 76"

text \<open>\<open>value || fallback\<close> on an optional string: absent and empty are both falsy.\<close>

definition strOr :: "jsstr option \<Rightarrow> jsstr \<Rightarrow> jsstr" where
  "strOr v d = (case v of None \<Rightarrow> d | Some s \<Rightarrow> if s = [] then d else s)"

text \<open>
  \<open>String.prototype.trim\<close> strips the code units that ECMAScript counts as
  WhiteSpace or LineTerminator from both ends.
\<close>

definition isJsSpace :: "cunit \<Rightarrow> bool" where
  "isJsSpace c \<longleftrightarrow>
     c = 0x09 \<or> c = 0x0A \<or> c = 0x0B \<or> c = 0x0C \<or> c = 0x0D \<or> c = 0x20 \<or> c = 0xA0 \<or>
     c = 0x1680 \<or> (0x2000 \<le> c \<and> c \<le> 0x200A) \<or> c = 0x2028 \<or> c = 0x2029 \<or>
     c = 0x202F \<or> c = 0x205F \<or> c = 0x3000 \<or> c = 0xFEFF"

definition trim :: "jsstr \<Rightarrow> jsstr" where
  "trim s = rev (dropWhile isJsSpace (rev (dropWhile isJsSpace s)))"

text \<open>The character class \<open>[\x00-\x1f\x7f]\<close>.\<close>

definition isControl :: "cunit \<Rightarrow> bool" where
  "isControl c \<longleftrightarrow> c \<le> 0x1F \<or> c = 0x7F"

text \<open>\<open>replace(/[class]/g, rep)\<close>: every code unit of the class becomes \<open>rep\<close>.\<close>

definition replaceClass :: "(cunit \<Rightarrow> bool) \<Rightarrow> jsstr \<Rightarrow> jsstr \<Rightarrow> jsstr" where
  "replaceClass cls rep s = concat (map (\<lambda>c. if cls c then rep else [c]) s)"

text \<open>\<open>replace(/[class]+/g, rep)\<close>: every maximal run of the class becomes one \<open>rep\<close>.\<close>

function replaceRuns :: "(cunit \<Rightarrow> bool) \<Rightarrow> jsstr \<Rightarrow> jsstr \<Rightarrow> jsstr" where
  "replaceRuns cls rep [] = []"
| "replaceRuns cls rep (c # cs) =
     (if cls c then rep @ replaceRuns cls rep (dropWhile cls cs)
      else c # replaceRuns cls rep cs)"
  by pat_completeness auto
termination
  by (relation "measure (\<lambda>(cls, rep, s). length s)")
     (auto simp: length_dropWhile_le less_Suc_eq_le)

text \<open>
  \<open>replace(/literal/g, rep)\<close> for a non-empty literal: matches are found left to
  right and do not overlap; the replacement text is not scanned again.
\<close>

function replaceLit :: "jsstr \<Rightarrow> jsstr \<Rightarrow> jsstr \<Rightarrow> jsstr" where
  "replaceLit pat rep [] = []"
| "replaceLit pat rep (c # cs) =
     (if pat \<noteq> [] \<and> prefix pat (c # cs)
      then rep @ replaceLit pat rep (drop (length pat) (c # cs))
      else c # replaceLit pat rep cs)"
  by pat_completeness auto
termination
  by (relation "measure (\<lambda>(pat, rep, s). length s)") auto

subsection \<open>Header-value sanitation\<close>

definition isCrLf :: "cunit \<Rightarrow> bool" where
  "isCrLf c \<longleftrightarrow> c = 0x0D \<or> c = 0x0A"

definition sanitizeHeaderValue :: "jsstr option \<Rightarrow> jsstr" where
  "sanitizeHeaderValue v =
     trim (replaceRuns isCrLf (js '' '') (replaceClass isControl (js '' '') (strOr v [])))"

subsection \<open>Filename sanitation\<close>

definition isAsciiLetter :: "cunit \<Rightarrow> bool" where
  "isAsciiLetter c \<longleftrightarrow> (0x41 \<le> c \<and> c \<le> 0x5A) \<or> (0x61 \<le> c \<and> c \<le> 0x7A)"

definition isIllegalFs :: "cunit \<Rightarrow> bool" where
  "isIllegalFs c \<longleftrightarrow> c \<in> set (js ''<>:'' @ [0x22] @ js ''|?*'')"

definition isSlash :: "cunit \<Rightarrow> bool" where
  "isSlash c \<longleftrightarrow> c = 0x2F \<or> c = 0x5C"

text \<open>\<open>replace(/^[A-Za-z]:[\\/]/g, '')\<close>: anchored at the start, so at most one match.\<close>

fun stripDrive :: "jsstr \<Rightarrow> jsstr" where
  "stripDrive (a # b # c # rest) =
     (if isAsciiLetter a \<and> b = 0x3A \<and> isSlash c then rest else a # b # c # rest)"
| "stripDrive s = s"

definition sanitizeCore :: "jsstr option \<Rightarrow> jsstr" where
  "sanitizeCore filename =
     trim (replaceClass isSlash (js ''_'')
       (replaceClass isIllegalFs (js ''_'')
         (replaceClass isControl []
           (stripDrive
             (dropWhile (\<lambda>c. c = 0x2F)
               (replaceLit [0x2E, 0x2E, 0x5C] []
                 (replaceLit (js ''../'') [] (strOr filename []))))))))"

definition sanitizeFilename :: "jsstr option \<Rightarrow> jsstr" where
  "sanitizeFilename filename =
     (let sanitized = sanitizeCore filename
      in if sanitized = [] then js ''message.eml'' else sanitized)"

subsection \<open>Line endings and joining\<close>

text \<open>\<open>Array.prototype.join\<close> on an array of strings.\<close>

fun joinWith :: "jsstr \<Rightarrow> jsstr list \<Rightarrow> jsstr" where
  "joinWith sep [] = []"
| "joinWith sep [x] = x"
| "joinWith sep (x # y # ys) = x @ sep @ joinWith sep (y # ys)"

definition normalizeLineEndings :: "jsstr option \<Rightarrow> jsstr" where
  "normalizeLineEndings text =
     replaceClass (\<lambda>c. c = 0x0A) CRLF
       (replaceClass (\<lambda>c. c = 0x0D) [0x0A]
         (replaceLit [0x0D, 0x0A] [0x0A] (strOr text [])))"

subsection \<open>Errors\<close>

text \<open>
  The only operation of the engine that can throw is the platform's \<open>btoa\<close>, which
  raises \<open>InvalidCharacterError\<close> on a code unit above \<open>0xFF\<close>. Every function
  that reaches it returns \<open>error + 'a\<close>, with \<open>Inl\<close> for the exception.
\<close>

datatype error = InvalidCharacterError

definition bindE :: "error + 'a \<Rightarrow> ('a \<Rightarrow> error + 'b) \<Rightarrow> error + 'b" where
  "bindE r f = (case r of Inl e \<Rightarrow> Inl e | Inr x \<Rightarrow> f x)"

fun mapE :: "('a \<Rightarrow> error + 'b) \<Rightarrow> 'a list \<Rightarrow> error + 'b list" where
  "mapE f [] = Inr []"
| "mapE f (x # xs) = bindE (f x) (\<lambda>y. bindE (mapE f xs) (\<lambda>ys. Inr (y # ys)))"

subsection \<open>Base64 codec\<close>

text \<open>
  The platform's \<open>btoa\<close>: standard alphabet, \<open>=\<close> padding, input read as one byte
  per code unit.
\<close>

definition b64chr :: "nat \<Rightarrow> cunit" where
  "b64chr n =
     js ''ABCDEFGHIJKLMNOPQRSTUVWXYZabcdefghijklmnopqrstuvwxyz0123456789+/'' ! n"

fun b64enc :: "byte list \<Rightarrow> jsstr" where
  "b64enc [] = []"
| "b64enc [a] =
     [b64chr (unat a div 4), b64chr (unat a mod 4 * 16), 0x3D, 0x3D]"
| "b64enc [a, b] =
     [b64chr (unat a div 4), b64chr (unat a mod 4 * 16 + unat b div 16),
      b64chr (unat b mod 16 * 4), 0x3D]"
| "b64enc (a # b # c # rest) =
     [b64chr (unat a div 4), b64chr (unat a mod 4 * 16 + unat b div 16),
      b64chr (unat b mod 16 * 4 + unat c div 64), b64chr (unat c mod 64)] @ b64enc rest"

definition btoa :: "jsstr \<Rightarrow> error + jsstr" where
  "btoa binary =
     (if \<exists>c \<in> set binary. 0xFF < c then Inl InvalidCharacterError
      else Inr (b64enc (map ucast binary)))"

definition fromCharCode :: "byte \<Rightarrow> cunit" where
  "fromCharCode b = ucast b"

text \<open>\<open>subarray(a, b)\<close> and \<open>slice(a, b)\<close> for \<open>a \<le> b\<close>, clamped to the length.\<close>

definition slice :: "'a list \<Rightarrow> nat \<Rightarrow> nat \<Rightarrow> 'a list" where
  "slice xs a b = take (b - a) (drop a xs)"

function encodeChunks :: "byte list \<Rightarrow> nat \<Rightarrow> jsstr \<Rightarrow> jsstr" where
  "encodeChunks bytes i binary =
     (if i < length bytes
      then encodeChunks bytes (i + 0x8000) (binary @ map fromCharCode (slice bytes i (i + 0x8000)))
      else binary)"
  by pat_completeness auto
termination
  by (relation "measure (\<lambda>(bytes, i, binary). length bytes - i)") auto

declare encodeChunks.simps [simp del]

definition base64EncodeBytes :: "byte list \<Rightarrow> error + jsstr" where
  "base64EncodeBytes bytes = btoa (encodeChunks bytes 0 [])"

text \<open>
  \<open>TextEncoder.encode\<close>: the string is read as code points (a surrogate pair is one
  code point, a lone surrogate becomes U+FFFD) and each code point is written in UTF-8.
\<close>

definition isHighSurrogate :: "cunit \<Rightarrow> bool" where
  "isHighSurrogate c \<longleftrightarrow> 0xD800 \<le> c \<and> c \<le> 0xDBFF"

definition isLowSurrogate :: "cunit \<Rightarrow> bool" where
  "isLowSurrogate c \<longleftrightarrow> 0xDC00 \<le> c \<and> c \<le> 0xDFFF"

definition scalarOf :: "cunit \<Rightarrow> nat" where
  "scalarOf c = (if isHighSurrogate c \<or> isLowSurrogate c then 0xFFFD else unat c)"

fun codePoints :: "jsstr \<Rightarrow> nat list" where
  "codePoints [] = []"
| "codePoints [c] = [scalarOf c]"
| "codePoints (c # d # rest) =
     (if isHighSurrogate c \<and> isLowSurrogate d
      then (0x10000 + (unat c - 0xD800) * 0x400 + (unat d - 0xDC00)) # codePoints rest
      else scalarOf c # codePoints (d # rest))"

definition utf8Bytes :: "nat \<Rightarrow> byte list" where
  "utf8Bytes cp =
     (if cp < 0x80 then [of_nat cp]
      else if cp < 0x800 then [of_nat (0xC0 + cp div 64), of_nat (0x80 + cp mod 64)]
      else if cp < 0x10000 then
        [of_nat (0xE0 + cp div 4096), of_nat (0x80 + cp div 64 mod 64), of_nat (0x80 + cp mod 64)]
      else
        [of_nat (0xF0 + cp div 262144), of_nat (0x80 + cp div 4096 mod 64),
         of_nat (0x80 + cp div 64 mod 64), of_nat (0x80 + cp mod 64)])"

definition textEncode :: "jsstr \<Rightarrow> byte list" where
  "textEncode text = concat (map utf8Bytes (codePoints text))"

definition base64EncodeUtf8 :: "jsstr \<Rightarrow> error + jsstr" where
  "base64EncodeUtf8 text = base64EncodeBytes (textEncode text)"

function wrapLines :: "jsstr \<Rightarrow> nat \<Rightarrow> jsstr list \<Rightarrow> jsstr list" where
  "wrapLines base64 i lines =
     (if i < length base64
      then wrapLines base64 (i + BASE64_LINE_LENGTH)
             (lines @ [slice base64 i (i + BASE64_LINE_LENGTH)])
      else lines)"
  by pat_completeness auto
termination
  by (relation "measure (\<lambda>(base64, i, lines). length base64 - i)")
     (auto simp: BASE64_LINE_LENGTH_def)

declare wrapLines.simps [simp del]

definition wrapBase64 :: "jsstr \<Rightarrow> jsstr" where
  "wrapBase64 base64 = (if base64 = [] then [] else joinWith CRLF (wrapLines base64 0 []))"

subsection \<open>Header encoder\<close>

definition hasNonAscii :: "jsstr \<Rightarrow> bool" where
  "hasNonAscii s \<longleftrightarrow> (\<exists>c \<in> set s. 0x7F < c)"

definition encodeHeaderWord :: "jsstr option \<Rightarrow> error + jsstr" where
  "encodeHeaderWord v =
     (let clean = sanitizeHeaderValue v
      in if clean = [] then Inr []
         else if \<not> hasNonAscii clean then Inr clean
         else bindE (base64EncodeUtf8 clean) (\<lambda>b. Inr (js ''=?UTF-8?B?'' @ b @ js ''?='')))"

subsection \<open>Address formatter\<close>

text \<open>
  A recipient record of the parser. The spec's \<open>role\<close> is the field \<open>recipType\<close>;
  every field may be absent.
\<close>

record recipient =
  recipType :: "jsstr option"
  name :: "jsstr option"
  smtpAddress :: "jsstr option"
  email :: "jsstr option"
  address :: "jsstr option"

text \<open>The \<open>{name, address}\<close> pair that \<open>formatAddress\<close> receives from its two callers.\<close>

record mailbox =
  mb_name :: jsstr
  mb_address :: jsstr

definition needsQuotes :: "jsstr \<Rightarrow> bool" where
  "needsQuotes s \<longleftrightarrow> (\<exists>c \<in> set s. c \<in> {0x22, 0x2C, 0x3C, 0x3E, 0x40})"

definition formatAddress :: "mailbox \<Rightarrow> error + jsstr" where
  "formatAddress r =
     (let addr = sanitizeHeaderValue (Some (mb_address r))
      in if addr = [] then Inr []
         else
           let rawName = sanitizeHeaderValue (Some (mb_name r))
           in if rawName = [] \<or> rawName = addr then Inr (js ''<'' @ addr @ js ''>'')
              else
                bindE (if hasNonAscii rawName then encodeHeaderWord (Some rawName) else Inr rawName)
                  (\<lambda>encodedName.
                     if prefix (js ''=?UTF-8?B?'') encodedName
                     then Inr (encodedName @ js '' <'' @ addr @ js ''>'')
                     else
                       let displayName =
                             (if needsQuotes encodedName
                              then [0x22] @ replaceClass (\<lambda>c. c = 0x22) [0x5C, 0x22] encodedName @ [0x22]
                              else encodedName)
                       in Inr (displayName @ js '' <'' @ addr @ js ''>'')))"

definition normalizeRecipient :: "recipient \<Rightarrow> mailbox" where
  "normalizeRecipient r =
     (let a = strOr (smtpAddress r) (strOr (email r) (strOr (address r) []))
      in \<lparr>mb_name = strOr (name r) a, mb_address = a\<rparr>)"

definition formatAddressList :: "recipient list option \<Rightarrow> jsstr \<Rightarrow> error + jsstr" where
  "formatAddressList rs type =
     (case rs of
        None \<Rightarrow> Inr []
      | Some recipients \<Rightarrow>
          bindE (mapE (\<lambda>r. formatAddress (normalizeRecipient r))
                   (filter (\<lambda>r. recipType r = Some type) recipients))
            (\<lambda>formatted. Inr (joinWith (js '', '') (filter (\<lambda>x. x \<noteq> []) formatted))))"

subsection \<open>Date header\<close>

text \<open>
  What the engine reads from the platform. At the \<open>k\<close>-th call of
  \<open>makeBoundary\<close> within one assembly, \<open>clock k\<close> is \<open>Date.now()\<close> in
  milliseconds and \<open>randomDigits k\<close> the hexadecimal digits that
  \<open>Math.random().toString(16).slice(2)\<close> leaves. \<open>parseDate\<close> is the
  implementation-defined reading of a date string by the \<open>Date\<close> constructor:
  the time value, \<open>None\<close> for an unreadable string.
\<close>

record entropy =
  clock :: "nat \<Rightarrow> nat"
  randomDigits :: "nat \<Rightarrow> nat list"
  parseDate :: "jsstr \<Rightarrow> int option"

text \<open>
  A date field holds a \<open>Date\<close> object (its time value in milliseconds since the
  epoch, \<open>None\<close> for an invalid date), a number (\<open>None\<close> for \<open>NaN\<close>) or a
  string. \<open>truthyDate\<close> is JavaScript truthiness: an object is truthy, the numbers
  \<open>0\<close> and \<open>NaN\<close> and the empty string are not. \<open>newDate\<close> is the time value
  of \<open>new Date(value)\<close>, \<open>None\<close> when it is \<open>NaN\<close>; a time value beyond
  8.64e15 milliseconds is \<open>NaN\<close>. \<open>toUTCString\<close> follows ECMAScript:
  \<open>Www, DD Mon YYYY HH:MM:SS GMT\<close>.
\<close>

datatype dateValue = DateObject "int option" | DateNumber "int option" | DateString jsstr

fun truthyDate :: "dateValue \<Rightarrow> bool" where
  "truthyDate (DateObject t) \<longleftrightarrow> True"
| "truthyDate (DateNumber n) \<longleftrightarrow> n \<noteq> None \<and> n \<noteq> Some 0"
| "truthyDate (DateString s) \<longleftrightarrow> s \<noteq> []"

definition timeClip :: "int \<Rightarrow> int option" where
  "timeClip t = (if \<bar>t\<bar> \<le> 8640000000000000 then Some t else None)"

fun newDate :: "entropy \<Rightarrow> dateValue \<Rightarrow> int option" where
  "newDate env (DateObject t) = t"
| "newDate env (DateNumber n) = Option.bind n timeClip"
| "newDate env (DateString s) = Option.bind (parseDate env s) timeClip"

text \<open>\<open>a || b\<close> on two optional date fields.\<close>

definition orDate :: "dateValue option \<Rightarrow> dateValue option \<Rightarrow> dateValue option" where
  "orDate a b = (case a of None \<Rightarrow> b | Some v \<Rightarrow> if truthyDate v then Some v else b)"

definition digitChar :: "nat \<Rightarrow> cunit" where
  "digitChar d = js ''0123456789abcdef'' ! (d mod 16)"

fun showNat :: "nat \<Rightarrow> jsstr" where
  "showNat n = (if n < 10 then [digitChar n] else showNat (n div 10) @ [digitChar (n mod 10)])"

declare showNat.simps [simp del]

definition padZero :: "nat \<Rightarrow> nat \<Rightarrow> jsstr" where
  "padZero w n = replicate (w - length (showNat n)) (digitChar 0) @ showNat n"

definition weekDayName :: "nat \<Rightarrow> jsstr" where
  "weekDayName d = [js ''Sun'', js ''Mon'', js ''Tue'', js ''Wed'', js ''Thu'', js ''Fri'', js ''Sat''] ! (d mod 7)"

definition monthName :: "nat \<Rightarrow> jsstr" where
  "monthName m =
     [js ''Jan'', js ''Feb'', js ''Mar'', js ''Apr'', js ''May'', js ''Jun'',
      js ''Jul'', js ''Aug'', js ''Sep'', js ''Oct'', js ''Nov'', js ''Dec''] ! (m mod 12)"

text \<open>Year, month (0 = March) and day of month of a day number counted from 1970-01-01.\<close>

definition civilFromDays :: "int \<Rightarrow> int \<times> nat \<times> nat" where
  "civilFromDays days =
     (let z = days + 719468;
          era = z div 146097;
          doe = nat (z mod 146097);
          yoe = (doe - doe div 1460 + doe div 36524 - doe div 146096) div 365;
          doy = doe - (365 * yoe + yoe div 4 - yoe div 100);
          mp = (5 * doy + 2) div 153;
          d = doy - (153 * mp + 2) div 5 + 1;
          y = int yoe + era * 400
      in (if mp < 10 then y else y + 1, mp, d))"

definition toUTCString :: "int \<Rightarrow> jsstr" where
  "toUTCString tv =
     (let days = tv div 86400000;
          ms = nat (tv mod 86400000);
          (y, mp, d) = civilFromDays days
      in weekDayName (nat ((days + 4) mod 7)) @ js '', '' @ padZero 2 d @ js '' '' @
         monthName (mp + 2) @ js '' '' @
         (if y < 0 then js ''-'' else []) @ padZero 4 (nat \<bar>y\<bar>) @ js '' '' @
         padZero 2 (ms div 3600000) @ js '':'' @ padZero 2 (ms div 60000 mod 60) @ js '':'' @
         padZero 2 (ms div 1000 mod 60) @ js '' GMT'')"

subsection \<open>Messages\<close>

record attachment =
  attachMimeTag :: "jsstr option"
  att_fileName :: "jsstr option"
  contentBase64 :: "jsstr option"
  contentId :: "jsstr option"

text \<open>
  The parsed message. \<open>recipients\<close> and \<open>attachments\<close> are \<open>None\<close> when the
  field is not an array; \<open>fileType\<close> and \<open>rawBuffer\<close> are the fields
  \<open>_fileType\<close> and \<open>_rawBuffer\<close>.
\<close>

record message =
  subject :: "jsstr option"
  senderName :: "jsstr option"
  senderEmail :: "jsstr option"
  recipients :: "recipient list option"
  bodyContent :: "jsstr option"
  bodyContentHTML :: "jsstr option"
  attachments :: "attachment list option"
  messageDeliveryTime :: "dateValue option"
  timestamp :: "dateValue option"
  fileName :: "jsstr option"
  fileType :: "jsstr option"
  rawBuffer :: "byte list option"

definition getMessageDate :: "entropy \<Rightarrow> message \<Rightarrow> jsstr" where
  "getMessageDate env m =
     (case orDate (messageDeliveryTime m) (timestamp m) of
        None \<Rightarrow> []
      | Some dateValue \<Rightarrow>
          if \<not> truthyDate dateValue then []
          else (case newDate env dateValue of
                  None \<Rightarrow> []
                | Some tv \<Rightarrow> toUTCString tv))"

subsection \<open>Boundary generator\<close>

text \<open>\<open>prefix-timestamp-random\<close>, from the \<open>k\<close>-th reading of the clock and of the random digits.\<close>

definition makeBoundary :: "entropy \<Rightarrow> nat \<Rightarrow> jsstr \<Rightarrow> jsstr" where
  "makeBoundary env k pre =
     pre @ js ''-'' @ showNat (clock env k) @ js ''-'' @ map digitChar (randomDigits env k)"

subsection \<open>Body and attachment parts\<close>

definition extractBase64 :: "jsstr \<Rightarrow> jsstr" where
  "extractBase64 dataUrl =
     (if dataUrl = [] then []
      else if 0x2C \<notin> set dataUrl then dataUrl
      else drop (Suc (length (takeWhile (\<lambda>c. c \<noteq> 0x2C) dataUrl))) dataUrl)"

definition buildTextPart :: "jsstr \<Rightarrow> jsstr \<Rightarrow> error + jsstr list" where
  "buildTextPart content contentType =
     (let normalized = normalizeLineEndings (Some content)
      in bindE (base64EncodeUtf8 normalized)
           (\<lambda>b. Inr [js ''Content-Type: '' @ contentType @ js ''; charset='' @ [0x22] @ js ''utf-8'' @ [0x22],
                     js ''Content-Transfer-Encoding: base64'',
                     [],
                     wrapBase64 b]))"

definition buildAlternativeLines :: "jsstr \<Rightarrow> jsstr \<Rightarrow> jsstr \<Rightarrow> bool \<Rightarrow> error + jsstr list" where
  "buildAlternativeLines boundaryAlt text html includeHeader =
     bindE (buildTextPart text (js ''text/plain''))
       (\<lambda>plainPart. bindE (buildTextPart html (js ''text/html''))
          (\<lambda>htmlPart.
             Inr ((if includeHeader
                   then [js ''Content-Type: multipart/alternative; boundary='' @ [0x22] @ boundaryAlt @ [0x22], []]
                   else []) @
                  [js ''--'' @ boundaryAlt] @ plainPart @
                  [js ''--'' @ boundaryAlt] @ htmlPart @
                  [js ''--'' @ boundaryAlt @ js ''--''])))"

definition buildAttachmentPart :: "attachment \<Rightarrow> jsstr list option" where
  "buildAttachmentPart a =
     (let mimeType = strOr (attachMimeTag a) (js ''application/octet-stream'');
          fname = sanitizeFilename (Some (strOr (att_fileName a) (js ''attachment'')));
          base64Content = extractBase64 (strOr (contentBase64 a) [])
      in if base64Content = [] then None
         else
           let hasId = (strOr (contentId a) [] \<noteq> []);
               cid = replaceClass (\<lambda>c. c = 0x3C \<or> c = 0x3E) [] (sanitizeHeaderValue (contentId a));
               disposition = (if hasId then js ''inline'' else js ''attachment'')
           in Some ([js ''Content-Type: '' @ mimeType @ js ''; name='' @ [0x22] @ fname @ [0x22],
                     js ''Content-Transfer-Encoding: base64''] @
                    (if hasId \<and> cid \<noteq> [] then [js ''Content-ID: <'' @ cid @ js ''>''] else []) @
                    [js ''Content-Disposition: '' @ disposition @ js ''; filename='' @ [0x22] @ fname @ [0x22],
                     [],
                     wrapBase64 base64Content]))"

subsection \<open>Eml assembler\<close>

text \<open>The header lines up to and including \<open>MIME-Version\<close>.\<close>

definition pushIf :: "jsstr \<Rightarrow> jsstr \<Rightarrow> jsstr list" where
  "pushIf label v = (if v = [] then [] else [label @ v])"

definition commonHeaders :: "entropy \<Rightarrow> message \<Rightarrow> error + jsstr list" where
  "commonHeaders env m =
     bindE (encodeHeaderWord (Some (strOr (subject m) [])))
       (\<lambda>subj. bindE (formatAddress \<lparr>mb_name = strOr (senderName m) [],
                                      mb_address = strOr (senderEmail m) []\<rparr>)
          (\<lambda>fromAddress. bindE (formatAddressList (recipients m) (js ''to''))
             (\<lambda>toList. bindE (formatAddressList (recipients m) (js ''cc''))
                (\<lambda>ccList.
                   Inr (pushIf (js ''Subject: '') subj @
                        pushIf (js ''From: '') fromAddress @
                        pushIf (js ''To: '') toList @
                        pushIf (js ''Cc: '') ccList @
                        pushIf (js ''Date: '') (getMessageDate env m) @
                        [js ''MIME-Version: 1.0''])))))"

text \<open>The \<open>forEach\<close> over the attachments: a part that is \<open>null\<close> is skipped.\<close>

fun pushAttachments :: "jsstr \<Rightarrow> attachment list \<Rightarrow> jsstr list \<Rightarrow> jsstr list" where
  "pushAttachments boundaryMixed [] lines = lines"
| "pushAttachments boundaryMixed (a # as) lines =
     (case buildAttachmentPart a of
        None \<Rightarrow> pushAttachments boundaryMixed as lines
      | Some partLines \<Rightarrow>
          pushAttachments boundaryMixed as (lines @ [js ''--'' @ boundaryMixed] @ partLines))"

text \<open>
  The assembler, returning the header lines and the body lines it joins. A single-part
  body is one line: the wrapped payload.
\<close>

definition buildEmlLines :: "entropy \<Rightarrow> message \<Rightarrow> error + (jsstr list \<times> jsstr list)" where
  "buildEmlLines env m =
     bindE (commonHeaders env m)
       (\<lambda>headers.
          let atts = (case attachments m of None \<Rightarrow> [] | Some as \<Rightarrow> as);
              bodyText = normalizeLineEndings (Some (strOr (bodyContent m) []));
              bodyHtml = normalizeLineEndings (Some (strOr (bodyContentHTML m) []));
              hasText = (0 < length (trim bodyText));
              hasHtml = (0 < length (trim bodyHtml));
              useBoth = (hasText \<and> hasHtml)
          in if 0 < length atts then
               let boundaryMixed = makeBoundary env 0 (js ''mixed'')
               in bindE (if useBoth
                         then buildAlternativeLines (makeBoundary env 1 (js ''alt'')) bodyText bodyHtml True
                         else if hasHtml \<or> hasText
                         then buildTextPart (if hasHtml then bodyHtml else bodyText)
                                (if hasHtml then js ''text/html'' else js ''text/plain'')
                         else buildTextPart [] (js ''text/plain''))
                    (\<lambda>first.
                       Inr (headers @ [js ''Content-Type: multipart/mixed; boundary='' @ [0x22] @ boundaryMixed @ [0x22]],
                            pushAttachments boundaryMixed atts ([js ''--'' @ boundaryMixed] @ first) @
                            [js ''--'' @ boundaryMixed @ js ''--'']))
             else if useBoth then
               let boundaryAlt = makeBoundary env 0 (js ''alt'')
               in bindE (buildAlternativeLines boundaryAlt bodyText bodyHtml False)
                    (\<lambda>lines.
                       Inr (headers @ [js ''Content-Type: multipart/alternative; boundary='' @ [0x22] @ boundaryAlt @ [0x22]],
                            lines))
             else if hasHtml \<or> hasText then
               bindE (base64EncodeUtf8 (if hasHtml then bodyHtml else bodyText))
                 (\<lambda>b. Inr (headers @
                            [js ''Content-Type: '' @ (if hasHtml then js ''text/html'' else js ''text/plain'') @
                               js ''; charset='' @ [0x22] @ js ''utf-8'' @ [0x22],
                             js ''Content-Transfer-Encoding: base64''],
                            [wrapBase64 b]))
             else
               bindE (base64EncodeUtf8 [])
                 (\<lambda>b. Inr (headers @
                            [js ''Content-Type: text/plain; charset='' @ [0x22] @ js ''utf-8'' @ [0x22],
                             js ''Content-Transfer-Encoding: base64''],
                            [wrapBase64 b])))"

definition buildEmlFromMessage :: "entropy \<Rightarrow> message \<Rightarrow> error + jsstr" where
  "buildEmlFromMessage env m =
     bindE (buildEmlLines env m)
       (\<lambda>(headers, lines). Inr (joinWith CRLF headers @ CRLF @ CRLF @ joinWith CRLF lines))"

subsection \<open>File name and download\<close>

definition lowerAscii :: "cunit \<Rightarrow> cunit" where
  "lowerAscii c = (if 0x41 \<le> c \<and> c \<le> 0x5A then c + 0x20 else c)"

text \<open>\<open>/\.ext$/i.test(s)\<close> for a lower-case ASCII extension.\<close>

definition endsWithCI :: "jsstr \<Rightarrow> jsstr \<Rightarrow> bool" where
  "endsWithCI ext s \<longleftrightarrow>
     length ext \<le> length s \<and> map lowerAscii (drop (length s - length ext) s) = ext"

definition dropExt :: "jsstr \<Rightarrow> jsstr \<Rightarrow> jsstr" where
  "dropExt ext s = (if endsWithCI ext s then take (length s - length ext) s else s)"

definition deriveEmlFileName :: "message \<Rightarrow> jsstr" where
  "deriveEmlFileName m =
     (let original = trim (strOr (fileName m) [])
      in if original \<noteq> [] \<and> endsWithCI (js ''.eml'') original
         then sanitizeFilename (Some original)
         else if original \<noteq> [] \<and> endsWithCI (js ''.msg'') original
         then sanitizeFilename (Some (dropExt (js ''.msg'') original @ js ''.eml''))
         else
           let subj = sanitizeFilename (Some (strOr (subject m) (js ''message'')));
               base = strOr (Some (trim (dropExt (js ''.eml'') subj))) (js ''message'')
           in base @ js ''.eml'')"

definition arrayBufferToBase64 :: "byte list \<Rightarrow> error + jsstr" where
  "arrayBufferToBase64 buffer = base64EncodeBytes buffer"

record download =
  dl_fileName :: jsstr
  dataUrl :: jsstr

definition buildEmlDownload :: "entropy \<Rightarrow> message option \<Rightarrow> error + download option" where
  "buildEmlDownload env message =
     (case message of
        None \<Rightarrow> Inr None
      | Some m \<Rightarrow>
          let fname = deriveEmlFileName m
          in if fileType m = Some (js ''eml'') \<and> rawBuffer m \<noteq> None
             then bindE (arrayBufferToBase64 (the (rawBuffer m)))
                    (\<lambda>base64. Inr (Some \<lparr>dl_fileName = fname,
                                         dataUrl = js ''data:message/rfc822;base64,'' @ base64\<rparr>))
             else bindE (buildEmlFromMessage env m)
                    (\<lambda>emlContent. bindE (base64EncodeUtf8 emlContent)
                       (\<lambda>base64. Inr (Some \<lparr>dl_fileName = fname,
                                            dataUrl = js ''data:message/rfc822;base64,'' @ base64\<rparr>))))"

section \<open>Decoders and predicates used to state the properties\<close>

text \<open>
  The definitions of this section are not part of the engine: they are the reading side
  (base64 and UTF-8 decoding) and the predicates in which the properties are stated.
\<close>

subsection \<open>Base64 decoding\<close>

definition b64val :: "cunit \<Rightarrow> nat option" where
  "b64val c =
     (if 0x41 \<le> c \<and> c \<le> 0x5A then Some (unat c - 0x41)
      else if 0x61 \<le> c \<and> c \<le> 0x7A then Some (unat c - 0x61 + 26)
      else if 0x30 \<le> c \<and> c \<le> 0x39 then Some (unat c - 0x30 + 52)
      else if c = 0x2B then Some 62
      else if c = 0x2F then Some 63
      else None)"

fun b64dec :: "jsstr \<Rightarrow> byte list option" where
  "b64dec [] = Some []"
| "b64dec (c1 # c2 # c3 # c4 # rest) =
     (case (b64val c1, b64val c2) of
        (Some v1, Some v2) \<Rightarrow>
          if c3 = 0x3D \<and> c4 = 0x3D \<and> rest = [] then Some [of_nat (v1 * 4 + v2 div 16)]
          else (case b64val c3 of
                  None \<Rightarrow> None
                | Some v3 \<Rightarrow>
                    if c4 = 0x3D \<and> rest = []
                    then Some [of_nat (v1 * 4 + v2 div 16), of_nat (v2 mod 16 * 16 + v3 div 4)]
                    else (case b64val c4 of
                            None \<Rightarrow> None
                          | Some v4 \<Rightarrow>
                              map_option
                                (\<lambda>bs. of_nat (v1 * 4 + v2 div 16) # of_nat (v2 mod 16 * 16 + v3 div 4) #
                                       of_nat (v3 mod 4 * 64 + v4) # bs)
                                (b64dec rest)))
      | _ \<Rightarrow> None)"
| "b64dec _ = None"

subsection \<open>UTF-8 decoding\<close>

text \<open>
  A strict decoder: continuation bytes are checked, overlong forms and surrogate code
  points are rejected. \<open>wellFormed\<close> holds of a string without lone surrogates.
\<close>

definition isCont :: "byte \<Rightarrow> bool" where
  "isCont b \<longleftrightarrow> 0x80 \<le> unat b \<and> unat b < 0xC0"

definition isScalar :: "nat \<Rightarrow> bool" where
  "isScalar cp \<longleftrightarrow> cp < 0x110000 \<and> \<not> (0xD800 \<le> cp \<and> cp < 0xE000)"

fun utf8Decode :: "byte list \<Rightarrow> nat list option" where
  "utf8Decode [] = Some []"
| "utf8Decode (b # bs) =
     (if unat b < 0x80 then map_option (Cons (unat b)) (utf8Decode bs)
      else if 0xC0 \<le> unat b \<and> unat b < 0xE0 then
        (case bs of
           c1 # r \<Rightarrow>
             let cp = (unat b - 0xC0) * 64 + (unat c1 - 0x80)
             in if isCont c1 \<and> 0x80 \<le> cp then map_option (Cons cp) (utf8Decode r) else None
         | _ \<Rightarrow> None)
      else if 0xE0 \<le> unat b \<and> unat b < 0xF0 then
        (case bs of
           c1 # c2 # r \<Rightarrow>
             let cp = (unat b - 0xE0) * 4096 + (unat c1 - 0x80) * 64 + (unat c2 - 0x80)
             in if isCont c1 \<and> isCont c2 \<and> 0x800 \<le> cp \<and> isScalar cp
                then map_option (Cons cp) (utf8Decode r) else None
         | _ \<Rightarrow> None)
      else if 0xF0 \<le> unat b \<and> unat b < 0xF8 then
        (case bs of
           c1 # c2 # c3 # r \<Rightarrow>
             let cp = (unat b - 0xF0) * 262144 + (unat c1 - 0x80) * 4096 +
                      (unat c2 - 0x80) * 64 + (unat c3 - 0x80)
             in if isCont c1 \<and> isCont c2 \<and> isCont c3 \<and> 0x10000 \<le> cp \<and> isScalar cp
                then map_option (Cons cp) (utf8Decode r) else None
         | _ \<Rightarrow> None)
      else None)"

definition utf16Units :: "nat \<Rightarrow> jsstr" where
  "utf16Units cp =
     (if cp < 0x10000 then [of_nat cp]
      else [of_nat (0xD800 + (cp - 0x10000) div 0x400), of_nat (0xDC00 + (cp - 0x10000) mod 0x400)])"

definition textDecode :: "byte list \<Rightarrow> jsstr option" where
  "textDecode bytes = map_option (\<lambda>cps. concat (map utf16Units cps)) (utf8Decode bytes)"

fun wellFormed :: "jsstr \<Rightarrow> bool" where
  "wellFormed [] \<longleftrightarrow> True"
| "wellFormed [c] \<longleftrightarrow> \<not> isHighSurrogate c \<and> \<not> isLowSurrogate c"
| "wellFormed (c # d # rest) \<longleftrightarrow>
     (if isHighSurrogate c then isLowSurrogate d \<and> wellFormed rest
      else \<not> isLowSurrogate c \<and> wellFormed (d # rest))"

subsection \<open>File names\<close>

text \<open>A string that starts with a drive-letter prefix, as \<open>/^[A-Za-z]:[\\/]/\<close> reads it.\<close>

fun hasDrivePrefix :: "jsstr \<Rightarrow> bool" where
  "hasDrivePrefix (a # b # c # rest) \<longleftrightarrow> isAsciiLetter a \<and> b = 0x3A \<and> isSlash c"
| "hasDrivePrefix s \<longleftrightarrow> False"

subsection \<open>Lines\<close>

text \<open>
  \<open>lineSafe\<close>: no CR and no LF. \<open>crlfOnly\<close>: every CR is followed by LF and every
  LF follows a CR, so the only line breaks are CRLF. \<open>linesTerminated\<close>: moreover the
  text is empty or ends with CRLF, so every line has its terminator.
\<close>

definition lineSafe :: "jsstr \<Rightarrow> bool" where
  "lineSafe s \<longleftrightarrow> list_all (\<lambda>c. \<not> isCrLf c) s"

fun crlfOnly :: "jsstr \<Rightarrow> bool" where
  "crlfOnly [] \<longleftrightarrow> True"
| "crlfOnly [c] \<longleftrightarrow> \<not> isCrLf c"
| "crlfOnly (c # d # rest) \<longleftrightarrow>
     (if c = 0x0D then d = 0x0A \<and> crlfOnly rest else c \<noteq> 0x0A \<and> crlfOnly (d # rest))"

definition linesTerminated :: "jsstr \<Rightarrow> bool" where
  "linesTerminated s \<longleftrightarrow> crlfOnly s \<and> (s = [] \<or> suffix CRLF s)"

text \<open>
  A \<open>Content-Type\<close> header is a line that starts with that field name, in any letter
  case. \<open>headerLine\<close>: a header line the assembler may emit before the body's own
  headers: not empty, on one line, and not a \<open>Content-Type\<close> header.
\<close>

definition isContentTypeHeader :: "jsstr \<Rightarrow> bool" where
  "isContentTypeHeader l \<longleftrightarrow> prefix (js ''content-type:'') (map lowerAscii l)"

definition headerLine :: "jsstr \<Rightarrow> bool" where
  "headerLine h \<longleftrightarrow> h \<noteq> [] \<and> lineSafe h \<and> \<not> isContentTypeHeader h"

text \<open>An attachment whose MIME tag and payload field hold no CR and no LF.\<close>

definition cleanAttachment :: "attachment \<Rightarrow> bool" where
  "cleanAttachment a \<longleftrightarrow>
     lineSafe (strOr (attachMimeTag a) []) \<and> lineSafe (strOr (contentBase64 a) [])"

text \<open>The attachments the assembler iterates over: none when the field is not an array.\<close>

definition attachmentsOf :: "message \<Rightarrow> attachment list" where
  "attachmentsOf m = (case attachments m of None \<Rightarrow> [] | Some as \<Rightarrow> as)"

text \<open>A character of the base64 alphabet, or the padding sign.\<close>

definition isB64Char :: "cunit \<Rightarrow> bool" where
  "isB64Char c \<longleftrightarrow> b64val c \<noteq> None \<or> c = 0x3D"

text \<open>
  Reading a wrapped payload back: the text is cut at every CRLF; it is a base64 payload
  of the bytes \<open>bs\<close> when no line is longer than 76 characters, every character is
  of the base64 alphabet, and the lines put together decode to \<open>bs\<close>.
\<close>

fun splitCRLF :: "jsstr \<Rightarrow> jsstr list" where
  "splitCRLF [] = [[]]"
| "splitCRLF [c] = [[c]]"
| "splitCRLF (c # d # rest) =
     (if c = 0x0D \<and> d = 0x0A then [] # splitCRLF rest
      else (case splitCRLF (d # rest) of l # ls \<Rightarrow> (c # l) # ls | [] \<Rightarrow> [[c]]))"

definition base64Payload :: "jsstr \<Rightarrow> byte list \<Rightarrow> bool" where
  "base64Payload p bs \<longleftrightarrow>
     list_all (\<lambda>l. length l \<le> 76 \<and> list_all isB64Char l) (splitCRLF p) \<and>
     b64dec (concat (splitCRLF p)) = Some bs"

text \<open>
  The header lines of an emitted part: the lines of the part's text before its first
  blank line. A \<open>Content-ID\<close> header is a line that starts with that field name, in
  any letter case.
\<close>

definition partHeaders :: "jsstr list \<Rightarrow> jsstr list" where
  "partHeaders p = takeWhile (\<lambda>l. l \<noteq> []) (splitCRLF (joinWith CRLF p))"

definition isContentIdHeader :: "jsstr \<Rightarrow> bool" where
  "isContentIdHeader l \<longleftrightarrow> prefix (js ''content-id:'') (map lowerAscii l)"

subsection \<open>Reading a message back\<close>

text \<open>
  The text of a message is cut into lines at every CRLF. Its header block is the lines
  before the first blank line, its body the lines after that blank line. In a multipart
  body with the boundary \<open>b\<close>, the line \<open>--b--\<close> ends the last part and each
  line \<open>--b\<close> before it starts a part; what precedes the first of them is the
  preamble and is no part. \<open>partLines\<close> is the lines of the text that the
  assembler's lines of one part make.
\<close>

definition headerLinesOf :: "jsstr \<Rightarrow> jsstr list" where
  "headerLinesOf content = takeWhile (\<lambda>l. l \<noteq> []) (splitCRLF content)"

definition bodyLinesOf :: "jsstr \<Rightarrow> jsstr list" where
  "bodyLinesOf content = tl (dropWhile (\<lambda>l. l \<noteq> []) (splitCRLF content))"

fun cutAt :: "jsstr \<Rightarrow> jsstr list \<Rightarrow> jsstr list list" where
  "cutAt d [] = [[]]"
| "cutAt d (l # ls) =
     (if l = d then [] # cutAt d ls
      else (case cutAt d ls of p # ps \<Rightarrow> (l # p) # ps | [] \<Rightarrow> [[l]]))"

definition mimeParts :: "jsstr \<Rightarrow> jsstr \<Rightarrow> jsstr list list" where
  "mimeParts boundary content =
     tl (cutAt (js ''--'' @ boundary)
           (takeWhile (\<lambda>l. l \<noteq> js ''--'' @ boundary @ js ''--'') (bodyLinesOf content)))"

definition partLines :: "jsstr list \<Rightarrow> jsstr list" where
  "partLines p = concat (map splitCRLF p)"

text \<open>
  An attachment whose MIME tag holds no CR and no LF and whose extracted payload holds no
  hyphen, as base64 text does not.
\<close>

definition wellDelimited :: "attachment \<Rightarrow> bool" where
  "wellDelimited a \<longleftrightarrow>
     lineSafe (strOr (attachMimeTag a) []) \<and>
     0x2D \<notin> set (extractBase64 (strOr (contentBase64 a) []))"

subsection \<open>Messages used as examples\<close>

text \<open>The message with every optional field missing.\<close>

definition emptyMessage :: message where
  "emptyMessage =
     \<lparr>subject = None, senderName = None, senderEmail = None, recipients = None,
      bodyContent = None, bodyContentHTML = None, attachments = None,
      messageDeliveryTime = None, timestamp = None, fileName = None, fileType = None,
      rawBuffer = None\<rparr>"

definition noEntropy :: entropy where
  "noEntropy = \<lparr>clock = (\<lambda>k. 0), randomDigits = (\<lambda>k. []), parseDate = (\<lambda>s. None)\<rparr>"

text \<open>
  The message of the spec's example scenario; the spec's \<open>role\<close> is the field
  \<open>recipType\<close>.
\<close>

definition helloMessage :: message where
  "helloMessage =
     emptyMessage
       \<lparr>subject := Some (js ''Hello''),
        senderEmail := Some (js ''a@x.com''),
        recipients := Some [\<lparr>recipType = Some (js ''to''), name = None, smtpAddress = None,
                              email = None, address = Some (js ''b@y.com'')\<rparr>],
        bodyContent := Some (js ''Hi''),
        attachments := Some []\<rparr>"

section \<open>Sanitation\<close>

lemma set_trim_subset: "set (trim s) \<subseteq> set s"
proof -
  have "set (dropWhile isJsSpace (rev (dropWhile isJsSpace s))) \<subseteq> set (rev (dropWhile isJsSpace s))"
    by (rule set_dropWhileD[THEN subsetI]) 
  also have "\<dots> \<subseteq> set s" using set_dropWhileD[of _ isJsSpace s] by auto
  finally show ?thesis by (simp add: trim_def)
qed

lemma replaceRuns_id: "\<forall>c\<in>set s. \<not> cls c \<Longrightarrow> replaceRuns cls rep s = s"
  by (induction s) auto

lemma replaceClass_single: "replaceClass cls [r] s = map (\<lambda>c. if cls c then r else c) s"
  by (induction s) (auto simp: replaceClass_def)

lemma set_replaceClass: "set (replaceClass cls rep s) \<subseteq> {c \<in> set s. \<not> cls c} \<union> set rep"
  by (induction s) (auto simp: replaceClass_def)

lemma isCrLf_isControl: "isCrLf c \<Longrightarrow> isControl c"
  by (auto simp: isCrLf_def isControl_def)

lemma js_space: "js '' '' = [0x20]" by (simp add: js_def)

lemma no_control_space: "\<not> isControl 0x20" by (simp add: isControl_def)

lemma sanitizeHeaderValue_map:
  "sanitizeHeaderValue v = trim (map (\<lambda>c. if isControl c then 0x20 else c) (strOr v []))"
proof -
  let ?m = "map (\<lambda>c. if isControl c then 0x20 else c) (strOr v [])"
  have "\<forall>c\<in>set ?m. \<not> isCrLf c"
    using isCrLf_isControl no_control_space by auto
  then show ?thesis
    by (simp add: sanitizeHeaderValue_def js_space replaceClass_single replaceRuns_id)
qed

lemma sanitizeHeaderValue_no_control: "c \<in> set (sanitizeHeaderValue v) \<Longrightarrow> \<not> isControl c"
proof -
  assume "c \<in> set (sanitizeHeaderValue v)"
  then have "c \<in> set (map (\<lambda>c. if isControl c then 0x20 else c) (strOr v []))"
    unfolding sanitizeHeaderValue_map by (rule set_trim_subset[THEN subsetD])
  then show ?thesis using no_control_space by auto
qed

lemma sanitizeCore_chars:
  assumes "c \<in> set (sanitizeCore f)"
  shows "\<not> isControl c \<and> \<not> isIllegalFs c \<and> \<not> isSlash c"
proof -
  define s0 where "s0 = stripDrive (dropWhile (\<lambda>c. c = 0x2F)
               (replaceLit [0x2E, 0x2E, 0x5C] [] (replaceLit (js ''../'') [] (strOr f []))))"
  define s1 where "s1 = replaceClass isControl [] s0"
  define s2 where "s2 = replaceClass isIllegalFs (js ''_'') s1"
  define s3 where "s3 = replaceClass isSlash (js ''_'') s2"
  have us: "js ''_'' = [0x5F]" by (simp add: js_def)
  have u: "\<not> isControl 0x5F" "\<not> isIllegalFs 0x5F" "\<not> isSlash 0x5F"
    by (simp_all add: isControl_def isIllegalFs_def isSlash_def js_def)
  have "c \<in> set s3"
    using assms set_trim_subset unfolding sanitizeCore_def s3_def s2_def s1_def s0_def by blast
  then have c3: "c = 0x5F \<or> (c \<in> set s2 \<and> \<not> isSlash c)"
    using set_replaceClass[of isSlash "js ''_''" s2] by (auto simp: s3_def us)
  have c2: "c \<in> set s2 \<Longrightarrow> c = 0x5F \<or> (c \<in> set s1 \<and> \<not> isIllegalFs c)"
    using set_replaceClass[of isIllegalFs "js ''_''" s1] by (auto simp: s2_def us)
  have c1: "c \<in> set s1 \<Longrightarrow> \<not> isControl c"
    using set_replaceClass[of isControl "[]" s0] by (auto simp: s1_def)
  show ?thesis using c3 c2 c1 u by blast
qed

lemma sublist_mem: "sublist p r \<Longrightarrow> set p \<subseteq> set r"
  by (auto simp: sublist_def)

lemma hasDrivePrefix_colon: "hasDrivePrefix r \<Longrightarrow> 0x3A \<in> set r"
  by (cases r rule: hasDrivePrefix.cases) auto

lemma fallback_chars:
  "c \<in> set (js ''message.eml'') \<Longrightarrow> \<not> isControl c \<and> \<not> isIllegalFs c \<and> \<not> isSlash c"
  by (auto simp: js_def isControl_def isIllegalFs_def isSlash_def)

lemma sanitizeFilename_chars:
  assumes "c \<in> set (sanitizeFilename f)"
  shows "\<not> isControl c \<and> \<not> isIllegalFs c \<and> \<not> isSlash c"
  using assms sanitizeCore_chars[of c f] fallback_chars[of c]
  by (auto simp: sanitizeFilename_def Let_def split: if_splits)

section \<open>Base64 round trip\<close>

lemma b64_alphabet:
  "js ''ABCDEFGHIJKLMNOPQRSTUVWXYZabcdefghijklmnopqrstuvwxyz0123456789+/'' =
   [0x41,0x42,0x43,0x44,0x45,0x46,0x47,0x48,0x49,0x4A,0x4B,0x4C,0x4D,0x4E,0x4F,0x50,
    0x51,0x52,0x53,0x54,0x55,0x56,0x57,0x58,0x59,0x5A,
    0x61,0x62,0x63,0x64,0x65,0x66,0x67,0x68,0x69,0x6A,0x6B,0x6C,0x6D,0x6E,0x6F,0x70,
    0x71,0x72,0x73,0x74,0x75,0x76,0x77,0x78,0x79,0x7A,
    0x30,0x31,0x32,0x33,0x34,0x35,0x36,0x37,0x38,0x39,0x2B,0x2F]"
  by (simp add: js_def)

lemma below64: "(n::nat) < 64 \<Longrightarrow> n \<in> set ([0, 1, 2, 3, 4, 5, 6, 7, 8, 9, 10, 11, 12, 13, 14, 15] @ [16, 17, 18, 19, 20, 21, 22, 23, 24, 25, 26, 27, 28, 29, 30, 31] @ [32, 33, 34, 35, 36, 37, 38, 39, 40, 41, 42, 43, 44, 45, 46, 47] @ [48, 49, 50, 51, 52, 53, 54, 55, 56, 57, 58, 59, 60, 61, 62, 63])"
  by (simp, arith)

lemma b64val_b64chr_all:
  "\<forall>n \<in> set ([0, 1, 2, 3, 4, 5, 6, 7, 8, 9, 10, 11, 12, 13, 14, 15] @ [16, 17, 18, 19, 20, 21, 22, 23, 24, 25, 26, 27, 28, 29, 30, 31] @ [32, 33, 34, 35, 36, 37, 38, 39, 40, 41, 42, 43, 44, 45, 46, 47] @ [48, 49, 50, 51, 52, 53, 54, 55, 56, 57, 58, 59, 60, 61, 62, 63]). b64val (b64chr n) = Some n \<and> b64chr n \<noteq> 0x3D \<and> b64chr n \<noteq> 0x0D \<and> b64chr n \<noteq> 0x0A"
  unfolding b64chr_def b64_alphabet
  by (simp add: b64val_def)

lemma b64val_b64chr: "n < 64 \<Longrightarrow> b64val (b64chr n) = Some n"
  using b64val_b64chr_all below64 by blast

lemma b64chr_not_pad: "n < 64 \<Longrightarrow> b64chr n \<noteq> 0x3D"
  using b64val_b64chr_all below64 by blast

lemma unat_byte: "unat (a::byte) < 256"
  using unsigned_less[of a] by simp

lemma sextets:
  fixes a b c :: byte
  shows "unat a div 4 < 64" "unat a mod 4 * 16 + unat b div 16 < 64"
        "unat b mod 16 * 4 + unat c div 64 < 64" "unat c mod 64 < 64"
        "unat a mod 4 * 16 < 64" "unat b mod 16 * 4 < 64"
proof -
  have "unat a < 256" "unat b < 256" "unat c < 256"
    by (rule unat_byte)+
  then show "unat a div 4 < 64" "unat a mod 4 * 16 + unat b div 16 < 64"
        "unat b mod 16 * 4 + unat c div 64 < 64" "unat c mod 64 < 64"
        "unat a mod 4 * 16 < 64" "unat b mod 16 * 4 < 64"
    by simp_all
qed

lemma divmod_pack:
  fixes q k m :: nat
  assumes "k < m"
  shows "(q * m + k) div m = q" "(q * m + k) mod m = k"
  using assms by simp_all

lemma recombine:
  fixes a b c :: byte
  shows "of_nat (unat a div 4 * 4 + (unat a mod 4 * 16 + unat b div 16) div 16) = a"
    "of_nat ((unat a mod 4 * 16 + unat b div 16) mod 16 * 16 + (unat b mod 16 * 4 + unat c div 64) div 4) = b"
    "of_nat ((unat b mod 16 * 4 + unat c div 64) mod 4 * 64 + unat c mod 64) = c"
    "of_nat (unat a div 4 * 4 + (unat a mod 4 * 16) div 16) = a"
    "of_nat ((unat a mod 4 * 16 + unat b div 16) mod 16 * 16 + (unat b mod 16 * 4) div 4) = b"
proof -
  have b16: "unat b div 16 < 16" using unat_byte[of b] by simp
  have c64: "unat c div 64 < 4" using unat_byte[of c] by simp
  have 1: "unat a div 4 * 4 + (unat a mod 4 * 16 + unat b div 16) div 16 = unat a"
    by (simp add: divmod_pack(1)[OF b16])
  have 2: "(unat a mod 4 * 16 + unat b div 16) mod 16 * 16 + (unat b mod 16 * 4 + unat c div 64) div 4 = unat b"
    using b16 by (simp add: divmod_pack(1)[OF c64])
  have 3: "(unat b mod 16 * 4 + unat c div 64) mod 4 * 64 + unat c mod 64 = unat c"
    using c64 by simp
  have 4: "unat a div 4 * 4 + (unat a mod 4 * 16) div 16 = unat a"
    by simp
  have 5: "(unat a mod 4 * 16 + unat b div 16) mod 16 * 16 + (unat b mod 16 * 4) div 4 = unat b"
    using b16 by simp
  show "of_nat (unat a div 4 * 4 + (unat a mod 4 * 16 + unat b div 16) div 16) = a"
    "of_nat ((unat a mod 4 * 16 + unat b div 16) mod 16 * 16 + (unat b mod 16 * 4 + unat c div 64) div 4) = b"
    "of_nat ((unat b mod 16 * 4 + unat c div 64) mod 4 * 64 + unat c mod 64) = c"
    "of_nat (unat a div 4 * 4 + (unat a mod 4 * 16) div 16) = a"
    "of_nat ((unat a mod 4 * 16 + unat b div 16) mod 16 * 16 + (unat b mod 16 * 4) div 4) = b"
    unfolding 1 2 3 4 5 by simp_all
qed

lemma b64dec_group:
  assumes "s1 < 64" "s2 < 64" "s3 < 64" "s4 < 64"
  shows "b64dec ([b64chr s1, b64chr s2, b64chr s3, b64chr s4] @ rest) =
         map_option (\<lambda>bs. of_nat (s1 * 4 + s2 div 16) # of_nat (s2 mod 16 * 16 + s3 div 4) #
                            of_nat (s3 mod 4 * 64 + s4) # bs) (b64dec rest)"
  using assms by (simp add: b64val_b64chr b64chr_not_pad)

lemma b64dec_pad2:
  assumes "s1 < 64" "s2 < 64"
  shows "b64dec [b64chr s1, b64chr s2, 0x3D, 0x3D] = Some [of_nat (s1 * 4 + s2 div 16)]"
  using assms by (simp add: b64val_b64chr)

lemma b64dec_pad1:
  assumes "s1 < 64" "s2 < 64" "s3 < 64"
  shows "b64dec [b64chr s1, b64chr s2, b64chr s3, 0x3D] =
         Some [of_nat (s1 * 4 + s2 div 16), of_nat (s2 mod 16 * 16 + s3 div 4)]"
  using assms by (simp add: b64val_b64chr b64chr_not_pad)

lemma b64dec_b64enc: "b64dec (b64enc bs) = Some bs"
proof (induction bs rule: b64enc.induct)
  case 1
  show ?case by simp
next
  case (2 a)
  have "b64dec (b64enc [a]) = Some [of_nat (unat a div 4 * 4 + (unat a mod 4 * 16) div 16)]"
    unfolding b64enc.simps by (rule b64dec_pad2) (rule sextets)+
  then show ?case unfolding recombine .
next
  case (3 a b)
  have "b64dec (b64enc [a, b]) =
        Some [of_nat (unat a div 4 * 4 + (unat a mod 4 * 16 + unat b div 16) div 16),
              of_nat ((unat a mod 4 * 16 + unat b div 16) mod 16 * 16 + (unat b mod 16 * 4) div 4)]"
    unfolding b64enc.simps by (rule b64dec_pad1) (rule sextets)+
  then show ?case unfolding recombine .
next
  case (4 a b c rest)
  have "b64dec (b64enc (a # b # c # rest)) =
        map_option (\<lambda>bs. of_nat (unat a div 4 * 4 + (unat a mod 4 * 16 + unat b div 16) div 16) #
             of_nat ((unat a mod 4 * 16 + unat b div 16) mod 16 * 16 + (unat b mod 16 * 4 + unat c div 64) div 4) #
             of_nat ((unat b mod 16 * 4 + unat c div 64) mod 4 * 64 + unat c mod 64) # bs)
          (b64dec (b64enc rest))"
    unfolding b64enc.simps by (rule b64dec_group) (rule sextets)+
  then show ?case unfolding recombine 4 by simp
qed

lemma encodeChunks_eq: "encodeChunks bytes i acc = acc @ map fromCharCode (drop i bytes)"
proof (induction bytes i acc rule: encodeChunks.induct)
  case (1 bytes i binary)
  show ?case
  proof (cases "i < length bytes")
    case True
    have "drop i bytes = take 0x8000 (drop i bytes) @ drop 0x8000 (drop i bytes)"
      by (rule append_take_drop_id[symmetric])
    then have "drop i bytes = take 0x8000 (drop i bytes) @ drop (i + 0x8000) bytes"
      by (simp add: add.commute)
    then have "map fromCharCode (drop i bytes) =
        map fromCharCode (take 0x8000 (drop i bytes)) @ map fromCharCode (drop (i + 0x8000) bytes)"
      by (metis map_append)
    with True 1 show ?thesis
      by (subst encodeChunks.simps) (simp add: slice_def)
  next
    case False
    then show ?thesis by (subst encodeChunks.simps) simp
  qed
qed

lemma fromCharCode_small: "\<not> 0xFF < fromCharCode b"
proof -
  have "unat (ucast b :: cunit) = unat b"
    by (simp add: unsigned_ucast_eq take_bit_nat_eq_self unat_byte[THEN less_trans])
  moreover have "unat b < 256" by (rule unat_byte)
  ultimately show ?thesis by (simp add: fromCharCode_def word_less_nat_alt)
qed

lemma ucast_fromCharCode: "ucast (fromCharCode b) = b"
  by (simp add: fromCharCode_def ucast_up_ucast_id is_up)

lemma base64EncodeBytes_eq: "base64EncodeBytes bytes = Inr (b64enc bytes)"
proof -
  have "map ucast (map fromCharCode bytes) = bytes"
    by (induction bytes) (simp_all add: ucast_fromCharCode)
  then show ?thesis
    by (simp add: base64EncodeBytes_def encodeChunks_eq btoa_def fromCharCode_small)
qed

section \<open>UTF-8 round trip\<close>

lemma unat_byte_of_nat: "n < 256 \<Longrightarrow> unat (of_nat n :: byte) = n"
  by (simp add: unat_of_nat)

lemma unat_cunit: "unat (c::cunit) < 65536"
  using unsigned_less[of c] by simp

lemma utf8Decode_ascii:
  "unat b0 = n \<Longrightarrow> n < 0x80 \<Longrightarrow> utf8Decode (b0 # rest) = map_option (Cons n) (utf8Decode rest)"
  by simp

lemma utf8Decode_two:
  assumes "unat b0 = 0xC0 + h" "unat b1 = 0x80 + l" "h < 32" "l < 64" "0x80 \<le> h * 64 + l"
  shows "utf8Decode (b0 # b1 # rest) = map_option (Cons (h * 64 + l)) (utf8Decode rest)"
  using assms by (simp add: isCont_def)

lemma utf8Decode_three:
  assumes "unat b0 = 0xE0 + h" "unat b1 = 0x80 + m" "unat b2 = 0x80 + l" "h < 16" "m < 64" "l < 64"
    "0x800 \<le> h * 4096 + m * 64 + l" "isScalar (h * 4096 + m * 64 + l)"
  shows "utf8Decode (b0 # b1 # b2 # rest) =
         map_option (Cons (h * 4096 + m * 64 + l)) (utf8Decode rest)"
  using assms by (simp add: isCont_def)

lemma utf8Decode_four:
  assumes "unat b0 = 0xF0 + h" "unat b1 = 0x80 + m" "unat b2 = 0x80 + k" "unat b3 = 0x80 + l"
    "h < 8" "m < 64" "k < 64" "l < 64"
    "0x10000 \<le> h * 262144 + m * 4096 + k * 64 + l" "isScalar (h * 262144 + m * 4096 + k * 64 + l)"
  shows "utf8Decode (b0 # b1 # b2 # b3 # rest) =
         map_option (Cons (h * 262144 + m * 4096 + k * 64 + l)) (utf8Decode rest)"
  using assms by (simp add: isCont_def)

lemma pack64:
  fixes q :: nat
  shows "q div 64 * 4096 + q mod 64 * 64 = q * 64"
    "q div 64 * 262144 + q mod 64 * 4096 = q * 4096"
proof -
  have "q * 64 = (q div 64 * 64 + q mod 64) * 64" by simp
  also have "\<dots> = q div 64 * 4096 + q mod 64 * 64"
    by (simp only: add_mult_distrib mult.assoc)
  finally show "q div 64 * 4096 + q mod 64 * 64 = q * 64" by (rule sym)
  have "q * 4096 = (q div 64 * 64 + q mod 64) * 4096" by simp
  also have "\<dots> = q div 64 * 262144 + q mod 64 * 4096"
    by (simp only: add_mult_distrib mult.assoc)
  finally show "q div 64 * 262144 + q mod 64 * 4096 = q * 4096" by (rule sym)
qed

lemma split64:
  fixes cp :: nat
  shows "cp div 64 * 64 + cp mod 64 = cp"
    "cp div 4096 * 4096 + cp div 64 mod 64 * 64 + cp mod 64 = cp"
    "cp div 262144 * 262144 + cp div 4096 mod 64 * 4096 + cp div 64 mod 64 * 64 + cp mod 64 = cp"
proof -
  show 1: "cp div 64 * 64 + cp mod 64 = cp" by simp
  have d2: "cp div 4096 = cp div 64 div 64" by (simp add: div_mult2_eq[symmetric])
  have d3: "cp div 262144 = cp div 4096 div 64" by (simp add: div_mult2_eq[symmetric])
  show 3: "cp div 4096 * 4096 + cp div 64 mod 64 * 64 + cp mod 64 = cp"
    unfolding d2 pack64 by simp
  have "cp div 262144 * 262144 + cp div 4096 mod 64 * 4096 + cp div 64 mod 64 * 64 + cp mod 64 =
             cp div 4096 * 4096 + cp div 64 mod 64 * 64 + cp mod 64"
    unfolding d3 pack64 by (rule refl)
  then show "cp div 262144 * 262144 + cp div 4096 mod 64 * 4096 + cp div 64 mod 64 * 64 + cp mod 64 = cp"
    unfolding 3 .
qed

lemma utf8Decode_utf8Bytes:
  assumes "isScalar cp"
  shows "utf8Decode (utf8Bytes cp @ rest) = map_option (Cons cp) (utf8Decode rest)"
proof -
  consider (a) "cp < 0x80" | (b) "0x80 \<le> cp" "cp < 0x800" | (c) "0x800 \<le> cp" "cp < 0x10000"
    | (d) "0x10000 \<le> cp" "cp < 0x110000"
    using assms unfolding isScalar_def by atomize_elim linarith
  then show ?thesis
  proof cases
    case a
    have ub: "utf8Bytes cp @ rest = of_nat cp # rest"
      using a by (simp add: utf8Bytes_def)
    have b0: "unat (of_nat cp :: byte) = cp"
      using a by (intro unat_byte_of_nat) simp
    show ?thesis unfolding ub by (rule utf8Decode_ascii[OF b0 a])
  next
    case b
    have ub: "utf8Bytes cp @ rest = of_nat (0xC0 + cp div 64) # of_nat (0x80 + cp mod 64) # rest"
      using b by (simp add: utf8Bytes_def)
    have b0: "unat (of_nat (0xC0 + cp div 64) :: byte) = 0xC0 + cp div 64"
      using b by (intro unat_byte_of_nat) simp
    have b1: "unat (of_nat (0x80 + cp mod 64) :: byte) = 0x80 + cp mod 64"
      by (intro unat_byte_of_nat) simp
    have "utf8Decode (utf8Bytes cp @ rest) =
          map_option (Cons (cp div 64 * 64 + cp mod 64)) (utf8Decode rest)"
      unfolding ub by (rule utf8Decode_two[OF b0 b1]) (use b in \<open>simp_all add: split64\<close>)
    then show ?thesis unfolding split64 .
  next
    case c
    have ub: "utf8Bytes cp @ rest =
        of_nat (0xE0 + cp div 4096) # of_nat (0x80 + cp div 64 mod 64) # of_nat (0x80 + cp mod 64) # rest"
      using c by (simp add: utf8Bytes_def)
    have b0: "unat (of_nat (0xE0 + cp div 4096) :: byte) = 0xE0 + cp div 4096"
      using c by (intro unat_byte_of_nat) simp
    have b1: "unat (of_nat (0x80 + cp div 64 mod 64) :: byte) = 0x80 + cp div 64 mod 64"
      by (intro unat_byte_of_nat) simp
    have b2: "unat (of_nat (0x80 + cp mod 64) :: byte) = 0x80 + cp mod 64"
      by (intro unat_byte_of_nat) simp
    have "utf8Decode (utf8Bytes cp @ rest) =
          map_option (Cons (cp div 4096 * 4096 + cp div 64 mod 64 * 64 + cp mod 64)) (utf8Decode rest)"
      unfolding ub by (rule utf8Decode_three[OF b0 b1 b2]) (use c assms in \<open>simp_all add: split64\<close>)
    then show ?thesis unfolding split64 .
  next
    case d
    have ub: "utf8Bytes cp @ rest =
        of_nat (0xF0 + cp div 262144) # of_nat (0x80 + cp div 4096 mod 64) #
        of_nat (0x80 + cp div 64 mod 64) # of_nat (0x80 + cp mod 64) # rest"
      using d by (simp add: utf8Bytes_def)
    have b0: "unat (of_nat (0xF0 + cp div 262144) :: byte) = 0xF0 + cp div 262144"
      using d by (intro unat_byte_of_nat) simp
    have b1: "unat (of_nat (0x80 + cp div 4096 mod 64) :: byte) = 0x80 + cp div 4096 mod 64"
      by (intro unat_byte_of_nat) simp
    have b2: "unat (of_nat (0x80 + cp div 64 mod 64) :: byte) = 0x80 + cp div 64 mod 64"
      by (intro unat_byte_of_nat) simp
    have b3: "unat (of_nat (0x80 + cp mod 64) :: byte) = 0x80 + cp mod 64"
      by (intro unat_byte_of_nat) simp
    have "utf8Decode (utf8Bytes cp @ rest) =
          map_option (Cons (cp div 262144 * 262144 + cp div 4096 mod 64 * 4096 + cp div 64 mod 64 * 64 + cp mod 64))
            (utf8Decode rest)"
      unfolding ub by (rule utf8Decode_four[OF b0 b1 b2 b3]) (use d assms in \<open>simp_all add: split64\<close>)
    then show ?thesis unfolding split64 .
  qed
qed

lemma utf8Decode_concat:
  "\<forall>cp \<in> set cps. isScalar cp \<Longrightarrow> utf8Decode (concat (map utf8Bytes cps)) = Some cps"
  by (induction cps) (simp_all add: utf8Decode_utf8Bytes)

lemma scalarOf_isScalar: "isScalar (scalarOf c)"
  using unat_cunit[of c]
  by (auto simp: scalarOf_def isScalar_def isHighSurrogate_def isLowSurrogate_def word_le_nat_alt)

lemma pair_isScalar:
  assumes "isHighSurrogate c" "isLowSurrogate d"
  shows "isScalar (0x10000 + (unat c - 0xD800) * 0x400 + (unat d - 0xDC00))"
  using assms by (auto simp: isScalar_def isHighSurrogate_def isLowSurrogate_def word_le_nat_alt)

lemma codePoints_scalar: "\<forall>cp \<in> set (codePoints s). isScalar cp"
  by (induction s rule: codePoints.induct) (auto simp: scalarOf_isScalar pair_isScalar)

lemma utf8Decode_textEncode: "utf8Decode (textEncode s) = Some (codePoints s)"
  by (simp add: textEncode_def utf8Decode_concat codePoints_scalar)

lemma utf16Units_scalarOf:
  "\<not> isHighSurrogate c \<Longrightarrow> \<not> isLowSurrogate c \<Longrightarrow> utf16Units (scalarOf c) = [c]"
  using unat_cunit[of c] by (simp add: utf16Units_def scalarOf_def)

lemma utf16Units_pair:
  assumes "isHighSurrogate c" "isLowSurrogate d"
  shows "utf16Units (0x10000 + (unat c - 0xD800) * 0x400 + (unat d - 0xDC00)) = [c, d]"
proof -
  have c: "0xD800 \<le> unat c" "unat c \<le> 0xDBFF" and d: "0xDC00 \<le> unat d" "unat d \<le> 0xDFFF"
    using assms by (simp_all add: isHighSurrogate_def isLowSurrogate_def word_le_nat_alt)
  have lt: "unat d - 0xDC00 < 0x400" using d by simp
  have 1: "((unat c - 0xD800) * 0x400 + (unat d - 0xDC00)) div 0x400 = unat c - 0xD800"
    using lt by simp
  have 2: "((unat c - 0xD800) * 0x400 + (unat d - 0xDC00)) mod 0x400 = unat d - 0xDC00"
    using lt by simp
  have 3: "0xD800 + (unat c - 0xD800) = unat c" "0xDC00 + (unat d - 0xDC00) = unat d"
    using c d by simp_all
  have "utf16Units (0x10000 + (unat c - 0xD800) * 0x400 + (unat d - 0xDC00)) =
        [of_nat (0xD800 + ((unat c - 0xD800) * 0x400 + (unat d - 0xDC00)) div 0x400),
         of_nat (0xDC00 + ((unat c - 0xD800) * 0x400 + (unat d - 0xDC00)) mod 0x400)]"
    by (simp add: utf16Units_def)
  then show ?thesis unfolding 1 2 3 by simp
qed

lemma utf16_codePoints: "wellFormed s \<Longrightarrow> concat (map utf16Units (codePoints s)) = s"
proof (induction s rule: codePoints.induct)
  case 1
  show ?case by simp
next
  case (2 c)
  then show ?case by (simp add: utf16Units_scalarOf)
next
  case (3 c d rest)
  show ?case
  proof (cases "isHighSurrogate c")
    case True
    with 3 show ?thesis by (simp add: utf16Units_pair)
  next
    case False
    with 3 show ?thesis by (simp add: utf16Units_scalarOf)
  qed
qed

lemma textDecode_textEncode: "wellFormed s \<Longrightarrow> textDecode (textEncode s) = Some s"
  by (simp add: textDecode_def utf8Decode_textEncode utf16_codePoints)

section \<open>Lines without CR and LF\<close>

lemma bindE_Inr [simp]: "bindE (Inr x) f = f x"
  by (simp add: bindE_def)

lemma bindE_Inl [simp]: "bindE (Inl e) f = Inl e"
  by (simp add: bindE_def)

lemma base64EncodeUtf8_eq: "base64EncodeUtf8 s = Inr (b64enc (textEncode s))"
  by (simp add: base64EncodeUtf8_def base64EncodeBytes_eq)

lemma mapE_ok:
  "(\<And>x. x \<in> set xs \<Longrightarrow> \<exists>y. f x = Inr y \<and> P y) \<Longrightarrow>
   \<exists>ys. mapE f xs = Inr ys \<and> (\<forall>y \<in> set ys. P y)"
proof (induction xs)
  case Nil
  show ?case by simp
next
  case (Cons x xs)
  obtain y where y: "f x = Inr y" "P y" using Cons.prems[of x] by auto
  obtain ys where ys: "mapE f xs = Inr ys" "\<forall>y \<in> set ys. P y"
    using Cons.IH Cons.prems by auto
  show ?case using y ys by simp
qed

lemma lineSafe_iff: "lineSafe s \<longleftrightarrow> (\<forall>c \<in> set s. \<not> isCrLf c)"
  by (simp add: lineSafe_def list_all_iff)

lemma lineSafe_Nil [simp]: "lineSafe []"
  by (simp add: lineSafe_def)

lemma lineSafe_Cons [simp]: "lineSafe (c # s) \<longleftrightarrow> \<not> isCrLf c \<and> lineSafe s"
  by (simp add: lineSafe_def)

lemma lineSafe_append [simp]: "lineSafe (a @ b) \<longleftrightarrow> lineSafe a \<and> lineSafe b"
  by (simp add: lineSafe_def)

lemma lineSafe_subset: "set a \<subseteq> set b \<Longrightarrow> lineSafe b \<Longrightarrow> lineSafe a"
  by (auto simp: lineSafe_iff)

lemma lineSafe_sanitizeHeaderValue [simp]: "lineSafe (sanitizeHeaderValue v)"
  using sanitizeHeaderValue_no_control isCrLf_isControl by (auto simp: lineSafe_iff)

lemma lineSafe_sanitizeFilename [simp]: "lineSafe (sanitizeFilename f)"
  using sanitizeFilename_chars isCrLf_isControl by (auto simp: lineSafe_iff)

lemma lineSafe_replaceClass: "lineSafe s \<Longrightarrow> lineSafe rep \<Longrightarrow> lineSafe (replaceClass cls rep s)"
  using set_replaceClass[of cls rep s] by (auto simp: lineSafe_iff)

lemma b64chr_safe: "n < 64 \<Longrightarrow> \<not> isCrLf (b64chr n) \<and> isB64Char (b64chr n)"
  using b64val_b64chr_all below64 by (auto simp: isCrLf_def isB64Char_def)

lemma isB64Char_pad: "isB64Char 0x3D" "\<not> isCrLf 0x3D"
  by (simp_all add: isB64Char_def isCrLf_def)

lemma b64enc_chars: "\<forall>c \<in> set (b64enc bs). isB64Char c \<and> \<not> isCrLf c"
  by (induction bs rule: b64enc.induct) (simp_all add: b64chr_safe sextets isB64Char_pad)

lemma lineSafe_b64enc [simp]: "lineSafe (b64enc bs)"
  using b64enc_chars by (simp add: lineSafe_iff)

lemma lineSafe_joinWith:
  "lineSafe sep \<Longrightarrow> \<forall>x \<in> set xs. lineSafe x \<Longrightarrow> lineSafe (joinWith sep xs)"
  by (induction sep xs rule: joinWith.induct) simp_all

lemma digitChar_safe: "\<not> isCrLf (digitChar d)"
proof -
  have "d mod 16 < 16" by simp
  then have "d mod 16 \<in> set [0, 1, 2, 3, 4, 5, 6, 7, 8, 9, 10, 11, 12, 13, 14, 15]"
    by (simp, arith)
  moreover have "\<forall>k \<in> set [0, 1, 2, 3, 4, 5, 6, 7, 8, 9, 10, 11, 12, 13, 14, 15].
      \<not> isCrLf (js ''0123456789abcdef'' ! k)"
    by (simp add: js_def isCrLf_def)
  ultimately show ?thesis unfolding digitChar_def by blast
qed

lemma lineSafe_showNat [simp]: "lineSafe (showNat n)"
proof (induction n rule: showNat.induct)
  case (1 n)
  then show ?case by (subst showNat.simps) (simp add: digitChar_safe)
qed

lemma lineSafe_digits [simp]: "lineSafe (map digitChar ds)"
  by (induction ds) (simp_all add: digitChar_safe)

lemma lineSafe_replicate: "\<not> isCrLf c \<Longrightarrow> lineSafe (replicate k c)"
  by (induction k) simp_all

lemma lineSafe_padZero [simp]: "lineSafe (padZero w n)"
  by (simp add: padZero_def lineSafe_replicate digitChar_safe)

lemma lineSafe_weekDayName [simp]: "lineSafe (weekDayName d)"
proof -
  have "d mod 7 < 7" by simp
  then have "d mod 7 \<in> set [0, 1, 2, 3, 4, 5, 6]" by (simp, arith)
  moreover have "\<forall>k \<in> set [0, 1, 2, 3, 4, 5, 6].
      lineSafe ([js ''Sun'', js ''Mon'', js ''Tue'', js ''Wed'', js ''Thu'', js ''Fri'', js ''Sat''] ! k)"
    by (simp add: js_def isCrLf_def)
  ultimately show ?thesis unfolding weekDayName_def by blast
qed

lemma lineSafe_monthName [simp]: "lineSafe (monthName m)"
proof -
  have "m mod 12 < 12" by simp
  then have "m mod 12 \<in> set [0, 1, 2, 3, 4, 5, 6, 7, 8, 9, 10, 11]" by (simp, arith)
  moreover have "\<forall>k \<in> set [0, 1, 2, 3, 4, 5, 6, 7, 8, 9, 10, 11].
      lineSafe ([js ''Jan'', js ''Feb'', js ''Mar'', js ''Apr'', js ''May'', js ''Jun'',
                 js ''Jul'', js ''Aug'', js ''Sep'', js ''Oct'', js ''Nov'', js ''Dec''] ! k)"
    by (simp add: js_def isCrLf_def)
  ultimately show ?thesis unfolding monthName_def by blast
qed

lemma lineSafe_toUTCString [simp]: "lineSafe (toUTCString tv)"
  by (simp add: toUTCString_def Let_def split: prod.splits) (simp add: js_def isCrLf_def)

lemma lineSafe_getMessageDate [simp]: "lineSafe (getMessageDate env m)"
  by (simp add: getMessageDate_def split: option.splits)

lemma lineSafe_makeBoundary: "lineSafe pre \<Longrightarrow> lineSafe (makeBoundary env k pre)"
  by (simp add: makeBoundary_def) (simp add: js_def isCrLf_def)

lemma lineSafe_js_body:
  "lineSafe (js ''Content-Type: '')" "lineSafe (js ''; charset='')" "lineSafe (js ''utf-8'')"
  "lineSafe (js ''Content-Transfer-Encoding: base64'')" "lineSafe (js ''text/plain'')"
  "lineSafe (js ''text/html'')" "lineSafe (js ''--'')" "lineSafe (js ''mixed'')" "lineSafe (js ''alt'')"
  "lineSafe (js ''Content-Type: multipart/alternative; boundary='')"
  "lineSafe (js ''Content-Type: multipart/mixed; boundary='')"
  "lineSafe (js ''Content-Type: text/plain; charset='')"
  "lineSafe (js ''; name='')" "lineSafe (js ''; filename='')" "lineSafe (js ''Content-ID: <'')"
  "lineSafe (js ''Content-Disposition: '')" "lineSafe (js ''inline'')" "lineSafe (js ''attachment'')"
  "lineSafe (js ''application/octet-stream'')"
  by (simp_all add: js_def isCrLf_def)

lemma not_isCrLf_quote [simp]: "\<not> isCrLf 0x22"
  by (simp add: isCrLf_def)

lemma lineSafe_extractBase64: "lineSafe d \<Longrightarrow> lineSafe (extractBase64 d)"
proof -
  assume d: "lineSafe d"
  have "set (extractBase64 d) \<subseteq> set d"
    by (auto simp: extractBase64_def dest: in_set_dropD)
  then show ?thesis using d by (rule lineSafe_subset)
qed

lemma lineSafe_strOr: "lineSafe (strOr v []) \<Longrightarrow> lineSafe d \<Longrightarrow> lineSafe (strOr v d)"
  by (auto simp: strOr_def split: option.splits)

section \<open>The header block\<close>

lemma lineSafe_lit:
  "lineSafe (js ''=?UTF-8?B?'')" "lineSafe (js ''?='')" "lineSafe (js ''<'')" "lineSafe (js ''>'')"
  "lineSafe (js '' <'')" "lineSafe (js '', '')" "lineSafe (js ''Subject: '')" "lineSafe (js ''From: '')"
  "lineSafe (js ''To: '')" "lineSafe (js ''Cc: '')" "lineSafe (js ''Date: '')"
  "lineSafe (js ''MIME-Version: 1.0'')"
  by (simp_all add: js_def isCrLf_def)

lemma encodeHeaderWord_ok: "\<exists>x. encodeHeaderWord v = Inr x \<and> lineSafe x"
  by (simp add: encodeHeaderWord_def Let_def base64EncodeUtf8_eq lineSafe_lit)

lemma formatAddress_ok: "\<exists>x. formatAddress r = Inr x \<and> lineSafe x"
proof -
  let ?addr = "sanitizeHeaderValue (Some (mb_address r))"
  let ?raw = "sanitizeHeaderValue (Some (mb_name r))"
  obtain e where e: "(if hasNonAscii ?raw then encodeHeaderWord (Some ?raw) else Inr ?raw) = Inr e"
    "lineSafe e"
    using encodeHeaderWord_ok[of "Some ?raw"] by (cases "hasNonAscii ?raw") auto
  have q: "lineSafe ([0x22] @ replaceClass (\<lambda>c. c = 0x22) [0x5C, 0x22] e @ [0x22])"
    using e(2) by (simp add: lineSafe_replaceClass isCrLf_def)
  show ?thesis
    unfolding formatAddress_def Let_def e(1) bindE_Inr
    using e(2) q by (simp add: lineSafe_lit)
qed

lemma formatAddressList_ok: "\<exists>x. formatAddressList rs t = Inr x \<and> lineSafe x"
proof (cases rs)
  case None
  then show ?thesis by (simp add: formatAddressList_def)
next
  case (Some recipients)
  obtain ys where ys:
    "mapE (\<lambda>r. formatAddress (normalizeRecipient r)) (filter (\<lambda>r. recipType r = Some t) recipients) = Inr ys"
    "\<forall>y \<in> set ys. lineSafe y"
    using mapE_ok[of "filter (\<lambda>r. recipType r = Some t) recipients"
        "\<lambda>r. formatAddress (normalizeRecipient r)" lineSafe] formatAddress_ok
    by blast
  have "lineSafe (joinWith (js '', '') (filter (\<lambda>x. x \<noteq> []) ys))"
    using ys(2) by (intro lineSafe_joinWith) (simp_all add: lineSafe_lit)
  then show ?thesis using Some ys(1) by (simp add: formatAddressList_def)
qed

lemma headerLine_pushIf:
  assumes "lineSafe v" "lineSafe label" "label \<noteq> []" "\<And>w. \<not> isContentTypeHeader (label @ w)"
  shows "\<forall>h \<in> set (pushIf label v). headerLine h"
  using assms by (simp add: pushIf_def headerLine_def)

lemma label_prefix:
  "\<not> isContentTypeHeader (js ''Subject: '' @ w)"
  "\<not> isContentTypeHeader (js ''From: '' @ w)"
  "\<not> isContentTypeHeader (js ''To: '' @ w)"
  "\<not> isContentTypeHeader (js ''Cc: '' @ w)"
  "\<not> isContentTypeHeader (js ''Date: '' @ w)"
  "\<not> isContentTypeHeader (js ''MIME-Version: 1.0'')"
  by (simp_all add: isContentTypeHeader_def js_def lowerAscii_def)

lemma label_nonempty:
  "js ''Subject: '' \<noteq> []" "js ''From: '' \<noteq> []" "js ''To: '' \<noteq> []" "js ''Cc: '' \<noteq> []"
  "js ''Date: '' \<noteq> []" "js ''MIME-Version: 1.0'' \<noteq> []"
  by (simp_all add: js_def)

lemma commonHeaders_ok:
  "\<exists>hs. commonHeaders env m = Inr hs \<and> hs \<noteq> [] \<and> (\<forall>h \<in> set hs. headerLine h)"
proof -
  obtain subj where s: "encodeHeaderWord (Some (strOr (subject m) [])) = Inr subj" "lineSafe subj"
    using encodeHeaderWord_ok by blast
  obtain fromA where f: "formatAddress \<lparr>mb_name = strOr (senderName m) [],
      mb_address = strOr (senderEmail m) []\<rparr> = Inr fromA" "lineSafe fromA"
    using formatAddress_ok by blast
  obtain toL where t: "formatAddressList (recipients m) (js ''to'') = Inr toL" "lineSafe toL"
    using formatAddressList_ok by blast
  obtain ccL where c: "formatAddressList (recipients m) (js ''cc'') = Inr ccL" "lineSafe ccL"
    using formatAddressList_ok by blast
  have 1: "\<forall>h \<in> set (pushIf (js ''Subject: '') subj). headerLine h"
    by (rule headerLine_pushIf) (simp_all add: s lineSafe_lit label_prefix label_nonempty)
  have 2: "\<forall>h \<in> set (pushIf (js ''From: '') fromA). headerLine h"
    by (rule headerLine_pushIf) (simp_all add: f lineSafe_lit label_prefix label_nonempty)
  have 3: "\<forall>h \<in> set (pushIf (js ''To: '') toL). headerLine h"
    by (rule headerLine_pushIf) (simp_all add: t lineSafe_lit label_prefix label_nonempty)
  have 4: "\<forall>h \<in> set (pushIf (js ''Cc: '') ccL). headerLine h"
    by (rule headerLine_pushIf) (simp_all add: c lineSafe_lit label_prefix label_nonempty)
  have 5: "\<forall>h \<in> set (pushIf (js ''Date: '') (getMessageDate env m)). headerLine h"
    by (rule headerLine_pushIf) (simp_all add: lineSafe_lit label_prefix label_nonempty)
  have 6: "headerLine (js ''MIME-Version: 1.0'')"
    by (simp add: headerLine_def lineSafe_lit label_prefix label_nonempty)
  show ?thesis
    unfolding commonHeaders_def s(1) f(1) t(1) c(1) bindE_Inr
    using 1 2 3 4 5 6 by auto
qed

section \<open>Line wrapping and line breaks\<close>

lemma wrapLines_concat: "concat (wrapLines s i acc) = concat acc @ drop i s"
proof (induction s i acc rule: wrapLines.induct)
  case (1 base64 i lines)
  show ?case
  proof (cases "i < length base64")
    case True
    have "drop i base64 = take 76 (drop i base64) @ drop 76 (drop i base64)"
      by (rule append_take_drop_id[symmetric])
    then have "drop i base64 = take 76 (drop i base64) @ drop (i + 76) base64"
      by (simp add: add.commute)
    with True 1 show ?thesis
      by (subst wrapLines.simps) (simp add: slice_def BASE64_LINE_LENGTH_def)
  next
    case False
    then show ?thesis by (subst wrapLines.simps) simp
  qed
qed

lemma wrapLines_lines:
  "l \<in> set (wrapLines s i acc) \<Longrightarrow>
   l \<in> set acc \<or> (l \<noteq> [] \<and> length l \<le> 76 \<and> set l \<subseteq> set s)"
proof (induction s i acc rule: wrapLines.induct)
  case (1 base64 i lines)
  show ?case
  proof (cases "i < length base64")
    case True
    then have "l \<in> set (wrapLines base64 (i + BASE64_LINE_LENGTH)
        (lines @ [slice base64 i (i + BASE64_LINE_LENGTH)]))"
      using 1(2) by (subst (asm) wrapLines.simps) simp
    then have "l \<in> set (lines @ [slice base64 i (i + BASE64_LINE_LENGTH)]) \<or>
        (l \<noteq> [] \<and> length l \<le> 76 \<and> set l \<subseteq> set base64)"
      using 1(1)[OF True] by blast
    moreover have "slice base64 i (i + BASE64_LINE_LENGTH) \<noteq> []"
      using True by (simp add: slice_def BASE64_LINE_LENGTH_def)
    moreover have "length (slice base64 i (i + BASE64_LINE_LENGTH)) \<le> 76"
      by (simp add: slice_def BASE64_LINE_LENGTH_def)
    moreover have "set (slice base64 i (i + BASE64_LINE_LENGTH)) \<subseteq> set base64"
      unfolding slice_def by (meson set_take_subset set_drop_subset subset_trans)
    ultimately show ?thesis by auto
  next
    case False
    then show ?thesis using 1(2) by (subst (asm) wrapLines.simps) simp
  qed
qed

lemma wrapLines_nonempty: "s \<noteq> [] \<Longrightarrow> wrapLines s 0 [] \<noteq> []"
proof
  assume s: "s \<noteq> []" and "wrapLines s 0 [] = []"
  then have "concat (wrapLines s 0 []) = []" by simp
  then show False using s by (simp add: wrapLines_concat)
qed

lemma wrapBase64_lines:
  "\<exists>ls. wrapBase64 s = joinWith CRLF ls \<and> concat ls = s \<and>
        (\<forall>l \<in> set ls. l \<noteq> [] \<and> length l \<le> 76 \<and> set l \<subseteq> set s)"
proof (cases "s = []")
  case True
  then show ?thesis by (intro exI[of _ "[]"]) (simp add: wrapBase64_def)
next
  case False
  have "\<forall>l \<in> set (wrapLines s 0 []). l \<noteq> [] \<and> length l \<le> 76 \<and> set l \<subseteq> set s"
    using wrapLines_lines[of _ s 0 "[]"] by auto
  then show ?thesis
    using False by (intro exI[of _ "wrapLines s 0 []"]) (simp add: wrapBase64_def wrapLines_concat)
qed

lemma crlfOnly_lineSafe: "lineSafe s \<Longrightarrow> crlfOnly s"
  by (induction s rule: crlfOnly.induct) (auto simp: isCrLf_def)

lemma crlfOnly_append: "crlfOnly a \<Longrightarrow> crlfOnly b \<Longrightarrow> crlfOnly (a @ b)"
proof (induction a rule: crlfOnly.induct)
  case 1
  then show ?case by simp
next
  case (2 c)
  then show ?case by (cases b) (auto simp: isCrLf_def)
next
  case (3 c d rest)
  then show ?case by (auto split: if_splits)
qed

lemma crlfOnly_CRLF [simp]: "crlfOnly CRLF"
  by (simp add: CRLF_def)

lemma crlfOnly_joinWith:
  "\<forall>l \<in> set ls. crlfOnly l \<Longrightarrow> crlfOnly (joinWith CRLF ls)"
  by (induction CRLF ls rule: joinWith.induct) (simp_all add: crlfOnly_append)

lemma crlfOnly_wrapBase64: "lineSafe s \<Longrightarrow> crlfOnly (wrapBase64 s)"
proof -
  assume s: "lineSafe s"
  obtain ls where ls: "wrapBase64 s = joinWith CRLF ls" "\<forall>l \<in> set ls. set l \<subseteq> set s"
    using wrapBase64_lines[of s] by blast
  have "\<forall>l \<in> set ls. crlfOnly l"
    using ls(2) s lineSafe_subset crlfOnly_lineSafe by blast
  then show ?thesis unfolding ls(1) by (rule crlfOnly_joinWith)
qed

lemma wrapBase64_first:
  "s \<noteq> [] \<Longrightarrow> lineSafe s \<Longrightarrow> \<not> prefix CRLF (wrapBase64 s)"
proof -
  assume s: "s \<noteq> []" "lineSafe s"
  obtain ls where ls: "wrapBase64 s = joinWith CRLF ls" "concat ls = s"
    "\<forall>l \<in> set ls. l \<noteq> [] \<and> length l \<le> 76 \<and> set l \<subseteq> set s"
    using wrapBase64_lines[of s] by blast
  from ls(2) s(1) obtain l rest where lr: "ls = l # rest" by (cases ls) auto
  then have l: "l \<noteq> []" "set l \<subseteq> set s" using ls(3) by auto
  then obtain c l' where c: "l = c # l'" by (cases l) auto
  then have "\<not> isCrLf c" using l(2) s(2) by (auto simp: lineSafe_iff)
  moreover have "\<exists>t. wrapBase64 s = c # t"
    unfolding ls(1) lr c by (cases rest) simp_all
  ultimately show ?thesis by (auto simp: CRLF_def isCrLf_def)
qed

section \<open>Body parts\<close>

lemma dropWhile_all_iff: "(\<forall>c \<in> set (dropWhile P s). P c) \<longleftrightarrow> (\<forall>c \<in> set s. P c)"
proof
  assume a: "\<forall>c \<in> set (dropWhile P s). P c"
  have "dropWhile P s = []"
  proof (rule ccontr)
    assume n: "dropWhile P s \<noteq> []"
    then have "\<not> P (hd (dropWhile P s))" by (simp add: hd_dropWhile)
    moreover have "hd (dropWhile P s) \<in> set (dropWhile P s)" using n by simp
    ultimately show False using a by blast
  qed
  then show "\<forall>c \<in> set s. P c" by (simp add: dropWhile_eq_Nil_conv)
next
  assume "\<forall>c \<in> set s. P c"
  then show "\<forall>c \<in> set (dropWhile P s). P c" using set_dropWhileD by fast
qed

lemma trim_empty_iff: "trim s = [] \<longleftrightarrow> (\<forall>c \<in> set s. isJsSpace c)"
  by (simp add: trim_def dropWhile_eq_Nil_conv dropWhile_all_iff)

lemma filter_replaceClass:
  "(\<And>c. cls c \<Longrightarrow> \<not> P c) \<Longrightarrow> filter P rep = [] \<Longrightarrow>
   filter P (replaceClass cls rep s) = filter P s"
  by (induction s) (auto simp: replaceClass_def)

lemma isCrLf_simps [simp]: "isCrLf 0x0D" "isCrLf 0x0A"
  by (simp_all add: isCrLf_def)

lemma filter_replaceLit_CRLF:
  "filter (\<lambda>c. \<not> isCrLf c) (replaceLit [0x0D, 0x0A] [0x0A] s) = filter (\<lambda>c. \<not> isCrLf c) s"
proof (induction "[0x0D, 0x0A] :: jsstr" "[0x0A] :: jsstr" s rule: replaceLit.induct)
  case 1
  show ?case by simp
next
  case (2 c cs)
  show ?case
  proof (cases "prefix [0x0D, 0x0A] (c # cs)")
    case True
    then obtain r where cs: "c = 0x0D" "cs = 0x0A # r" by (auto simp: prefix_def)
    have IH: "filter (\<lambda>c. \<not> isCrLf c) (replaceLit [0x0D, 0x0A] [0x0A] r) = filter (\<lambda>c. \<not> isCrLf c) r"
      using 2(1) True cs by simp
    show ?thesis unfolding cs by (simp add: IH)
  next
    case False
    then show ?thesis using 2(2) by auto
  qed
qed

lemma filter_normalizeLineEndings:
  "filter (\<lambda>c. \<not> isCrLf c) (normalizeLineEndings (Some s)) = filter (\<lambda>c. \<not> isCrLf c) s"
proof -
  have 1: "filter (\<lambda>c. \<not> isCrLf c) (replaceClass (\<lambda>c. c = 0x0A) CRLF t) = filter (\<lambda>c. \<not> isCrLf c) t" for t
    by (rule filter_replaceClass) (simp_all add: CRLF_def)
  have 2: "filter (\<lambda>c. \<not> isCrLf c) (replaceClass (\<lambda>c. c = 0x0D) [0x0A] t) = filter (\<lambda>c. \<not> isCrLf c) t" for t
    by (rule filter_replaceClass) simp_all
  have 3: "strOr (Some s) [] = s" by (simp add: strOr_def)
  show ?thesis
    unfolding normalizeLineEndings_def 3 1 2 by (rule filter_replaceLit_CRLF)
qed

lemma isCrLf_isJsSpace: "isCrLf c \<Longrightarrow> isJsSpace c"
  by (auto simp: isCrLf_def isJsSpace_def)

lemma trim_normalizeLineEndings:
  "trim (normalizeLineEndings (Some s)) = [] \<longleftrightarrow> trim s = []"
proof -
  have *: "(\<forall>c \<in> set t. isJsSpace c) \<longleftrightarrow> (\<forall>c \<in> set (filter (\<lambda>c. \<not> isCrLf c) t). isJsSpace c)" for t
    using isCrLf_isJsSpace by auto
  show ?thesis
    unfolding trim_empty_iff
    by (subst *, subst (2) *) (simp only: filter_normalizeLineEndings)
qed

lemma buildTextPart_eq:
  "buildTextPart content ct =
   Inr [js ''Content-Type: '' @ ct @ js ''; charset='' @ [0x22] @ js ''utf-8'' @ [0x22],
        js ''Content-Transfer-Encoding: base64'',
        [],
        wrapBase64 (b64enc (textEncode (normalizeLineEndings (Some content))))]"
  by (simp add: buildTextPart_def Let_def base64EncodeUtf8_eq)

lemma buildAlternativeLines_eq:
  "buildAlternativeLines b text html hdr =
   Inr ((if hdr then [js ''Content-Type: multipart/alternative; boundary='' @ [0x22] @ b @ [0x22], []]
         else []) @
        [js ''--'' @ b,
         js ''Content-Type: '' @ js ''text/plain'' @ js ''; charset='' @ [0x22] @ js ''utf-8'' @ [0x22],
         js ''Content-Transfer-Encoding: base64'',
         [],
         wrapBase64 (b64enc (textEncode (normalizeLineEndings (Some text)))),
         js ''--'' @ b,
         js ''Content-Type: '' @ js ''text/html'' @ js ''; charset='' @ [0x22] @ js ''utf-8'' @ [0x22],
         js ''Content-Transfer-Encoding: base64'',
         [],
         wrapBase64 (b64enc (textEncode (normalizeLineEndings (Some html)))),
         js ''--'' @ b @ js ''--''])"
  by (simp add: buildAlternativeLines_def buildTextPart_eq)


lemma pushAttachments_eq:
  "pushAttachments b atts lines =
   lines @ concat (map (\<lambda>p. (js ''--'' @ b) # p) (List.map_filter buildAttachmentPart atts))"
  by (induction atts arbitrary: lines) (simp_all add: List.map_filter_simps split: option.splits)


section \<open>Payloads read back\<close>

lemma splitCRLF_line: "lineSafe l \<Longrightarrow> splitCRLF l = [l]"
  by (induction l rule: splitCRLF.induct) (auto simp: isCrLf_def)

lemma splitCRLF_cons: "lineSafe l \<Longrightarrow> splitCRLF (l @ CRLF @ t) = l # splitCRLF t"
proof (induction l)
  case Nil
  show ?case by (simp add: CRLF_def)
next
  case (Cons c l)
  obtain d rest where dr: "l @ CRLF @ t = d # rest"
    by (cases "l @ CRLF @ t") (simp_all add: CRLF_def)
  have c: "c \<noteq> 0x0D" using Cons.prems by (auto simp: isCrLf_def)
  have "splitCRLF (l @ CRLF @ t) = l # splitCRLF t" using Cons by simp
  then show ?case using c dr by simp
qed

lemma splitCRLF_joinWith:
  "ls \<noteq> [] \<Longrightarrow> \<forall>l \<in> set ls. lineSafe l \<Longrightarrow> splitCRLF (joinWith CRLF ls) = ls"
proof (induction CRLF ls rule: joinWith.induct)
  case 1
  then show ?case by simp
next
  case (2 x)
  then show ?case by (simp add: splitCRLF_line)
next
  case (3 x y ys)
  then show ?case by (simp add: splitCRLF_cons)
qed

lemma isB64Char_lineSafe: "\<forall>c \<in> set s. isB64Char c \<and> \<not> isCrLf c \<Longrightarrow> lineSafe s"
  by (simp add: lineSafe_iff)

lemma base64Payload_wrap: "base64Payload (wrapBase64 (b64enc bs)) bs"
proof (cases "b64enc bs = []")
  case True
  then have "b64dec [] = Some bs" using b64dec_b64enc[of bs] by simp
  then show ?thesis using True by (simp add: base64Payload_def wrapBase64_def)
next
  case False
  obtain ls where ls: "wrapBase64 (b64enc bs) = joinWith CRLF ls" "concat ls = b64enc bs"
    "\<forall>l \<in> set ls. l \<noteq> [] \<and> length l \<le> 76 \<and> set l \<subseteq> set (b64enc bs)"
    using wrapBase64_lines[of "b64enc bs"] by blast
  have ne: "ls \<noteq> []" using ls(2) False by auto
  have ch: "\<forall>l \<in> set ls. \<forall>c \<in> set l. isB64Char c \<and> \<not> isCrLf c"
    using ls(3) b64enc_chars[of bs] by blast
  then have safe: "\<forall>l \<in> set ls. lineSafe l" by (simp add: lineSafe_iff)
  have sp: "splitCRLF (wrapBase64 (b64enc bs)) = ls"
    unfolding ls(1) using ne safe by (rule splitCRLF_joinWith)
  show ?thesis
    unfolding base64Payload_def sp ls(2)
    using ls(3) ch by (simp add: list_all_iff b64dec_b64enc)
qed

lemma replaceClass_id: "\<forall>c \<in> set s. \<not> cls c \<Longrightarrow> replaceClass cls rep s = s"
  by (induction s) (simp_all add: replaceClass_def)

lemma replaceLit_expand:
  "0x0D \<notin> set u \<Longrightarrow> replaceLit [0x0D, 0x0A] [0x0A] (replaceClass (\<lambda>c. c = 0x0A) CRLF u) = u"
proof (induction u)
  case Nil
  show ?case by (simp add: replaceClass_def)
next
  case (Cons c u)
  have IH: "replaceLit [0x0D, 0x0A] [0x0A] (replaceClass (\<lambda>c. c = 0x0A) CRLF u) = u"
    using Cons by simp
  have e: "replaceClass (\<lambda>c. c = 0x0A) CRLF (c # u) =
           (if c = 0x0A then CRLF else [c]) @ replaceClass (\<lambda>c. c = 0x0A) CRLF u"
    by (simp add: replaceClass_def)
  show ?case
  proof (cases "c = 0x0A")
    case True
    then show ?thesis unfolding e using IH by (simp add: CRLF_def)
  next
    case False
    moreover have "c \<noteq> 0x0D" using Cons.prems by auto
    ultimately show ?thesis unfolding e using IH by simp
  qed
qed

lemma strOr_Some_Nil: "strOr (Some x) [] = x"
  by (simp add: strOr_def)

lemma normalizeLineEndings_idem:
  "normalizeLineEndings (Some (normalizeLineEndings (Some s))) = normalizeLineEndings (Some s)"
proof -
  define u where "u = replaceClass (\<lambda>c. c = 0x0D) [0x0A] (replaceLit [0x0D, 0x0A] [0x0A] s)"
  have n: "normalizeLineEndings (Some s) = replaceClass (\<lambda>c. c = 0x0A) CRLF u"
    by (simp add: normalizeLineEndings_def strOr_def u_def)
  have cr: "0x0D \<notin> set u"
    using set_replaceClass[of "\<lambda>c. c = 0x0D" "[0x0A]" "replaceLit [0x0D, 0x0A] [0x0A] s"]
    unfolding u_def by auto
  have 1: "replaceLit [0x0D, 0x0A] [0x0A] (replaceClass (\<lambda>c. c = 0x0A) CRLF u) = u"
    using cr by (rule replaceLit_expand)
  have 2: "replaceClass (\<lambda>c. c = 0x0D) [0x0A] u = u"
    using cr by (intro replaceClass_id) auto
  have "normalizeLineEndings (Some (replaceClass (\<lambda>c. c = 0x0A) CRLF u)) =
        replaceClass (\<lambda>c. c = 0x0A) CRLF u"
    unfolding normalizeLineEndings_def strOr_Some_Nil 1 2 by (rule refl)
  then show ?thesis unfolding n .
qed

lemma partHeaders_lines:
  "\<forall>h \<in> set hs. h \<noteq> [] \<and> lineSafe h \<Longrightarrow> partHeaders (hs @ [] # rest) = hs"
proof (induction hs)
  case Nil
  show ?case
  proof (cases rest)
    case Nil
    then show ?thesis by (simp add: partHeaders_def)
  next
    case (Cons y ys)
    have "splitCRLF (joinWith CRLF ([] # y # ys)) = [] # splitCRLF (joinWith CRLF (y # ys))"
      using splitCRLF_cons[of "[]" "joinWith CRLF (y # ys)"] by simp
    then show ?thesis using Cons by (simp add: partHeaders_def)
  qed
next
  case (Cons h hs)
  obtain y ys where y: "hs @ [] # rest = y # ys" by (cases "hs @ [] # rest") simp_all
  have h: "h \<noteq> []" "lineSafe h" using Cons.prems by simp_all
  have "splitCRLF (joinWith CRLF (h # y # ys)) = h # splitCRLF (joinWith CRLF (y # ys))"
    using splitCRLF_cons[OF h(2), of "joinWith CRLF (y # ys)"] by simp
  then have "partHeaders (h # y # ys) = h # partHeaders (y # ys)"
    using h(1) by (simp add: partHeaders_def)
  then show ?case using Cons y by simp
qed

lemma content_id_header_names:
  "\<not> isContentIdHeader (js ''Content-Type: '' @ w)"
  "\<not> isContentIdHeader (js ''Content-Transfer-Encoding: base64'')"
  "\<not> isContentIdHeader (js ''Content-Disposition: '' @ w)"
  "isContentIdHeader (js ''Content-ID: <'' @ w)"
  by (simp_all add: isContentIdHeader_def js_def lowerAscii_def)

section \<open>Messages read back: header block, body and parts\<close>

lemma splitCRLF_nonempty [simp]: "splitCRLF s \<noteq> []"
  by (induction s rule: splitCRLF.induct) (auto split: list.splits)

lemma splitCRLF_append: "splitCRLF (a @ CRLF @ b) = splitCRLF a @ splitCRLF b"
proof (induction a rule: splitCRLF.induct)
  case 1
  show ?case by (simp add: CRLF_def)
next
  case (2 c)
  show ?case by (simp add: CRLF_def)
next
  case (3 c d rest)
  show ?case
  proof (cases "c = 0x0D \<and> d = 0x0A")
    case True
    then show ?thesis using 3 by simp
  next
    case False
    obtain l ls where l: "splitCRLF (d # rest) = l # ls"
      by (cases "splitCRLF (d # rest)") simp_all
    have "splitCRLF (d # rest @ CRLF @ b) = (l # ls) @ splitCRLF b"
      using 3(2) False l by simp
    then show ?thesis using False l by auto
  qed
qed

lemma splitCRLF_joinWith_concat:
  "ls \<noteq> [] \<Longrightarrow> splitCRLF (joinWith CRLF ls) = concat (map splitCRLF ls)"
proof (induction CRLF ls rule: joinWith.induct)
  case 1
  then show ?case by simp
next
  case (2 x)
  show ?case by simp
next
  case (3 x y ys)
  then show ?case by (simp add: splitCRLF_append)
qed

lemma set_splitCRLF: "l \<in> set (splitCRLF s) \<Longrightarrow> set l \<subseteq> set s"
proof (induction s arbitrary: l rule: splitCRLF.induct)
  case 1
  then show ?case by simp
next
  case (2 c)
  then show ?case by simp
next
  case (3 c d rest)
  show ?case
  proof (cases "c = 0x0D \<and> d = 0x0A")
    case True
    then show ?thesis using 3 by auto
  next
    case False
    obtain k ks where k: "splitCRLF (d # rest) = k # ks"
      by (cases "splitCRLF (d # rest)") simp_all
    have ih: "\<And>x. x \<in> set (k # ks) \<Longrightarrow> set x \<subseteq> set (d # rest)"
      using 3(2)[OF False] k by simp
    have "l = c # k \<or> l \<in> set ks" using 3(3) False k by auto
    then show ?thesis
    proof
      assume "l = c # k"
      then show ?thesis using ih[of k] by auto
    next
      assume "l \<in> set ks"
      then show ?thesis using ih[of l] by auto
    qed
  qed
qed

lemma joinWith_append:
  "a \<noteq> [] \<Longrightarrow> b \<noteq> [] \<Longrightarrow> joinWith s (a @ b) = joinWith s a @ s @ joinWith s b"
proof (induction s a rule: joinWith.induct)
  case (1 sep)
  then show ?case by simp
next
  case (2 sep x)
  then show ?case by (cases b) simp_all
next
  case (3 sep x y ys)
  then show ?case by simp
qed

lemma cutAt_nonempty [simp]: "cutAt d ls \<noteq> []"
  by (induction ls) (auto split: list.splits)

lemma cutAt_append:
  "d \<notin> set p \<Longrightarrow> cutAt d (p @ rest) = (p @ hd (cutAt d rest)) # tl (cutAt d rest)"
proof (induction p)
  case Nil
  show ?case by simp
next
  case (Cons l p)
  then show ?case by (auto split: list.splits)
qed

lemma cutAt_parts:
  "\<forall>p \<in> set ps. d \<notin> set p \<Longrightarrow> cutAt d (concat (map (\<lambda>p. d # p) ps)) = [] # ps"
proof (induction ps)
  case Nil
  show ?case by simp
next
  case (Cons p ps)
  then have "cutAt d (p @ concat (map (\<lambda>p. d # p) ps)) = p # ps"
    by (simp add: cutAt_append)
  then show ?case by simp
qed

lemma takeWhile_closing:
  "dd \<notin> set xs \<Longrightarrow> takeWhile (\<lambda>l. l \<noteq> dd) (xs @ [dd]) = xs"
  by (induction xs) auto

lemma splitCRLF_message:
  assumes "hs \<noteq> []" and "\<forall>h \<in> set hs. h \<noteq> [] \<and> lineSafe h" and "body \<noteq> []"
  shows "headerLinesOf (joinWith CRLF hs @ CRLF @ CRLF @ joinWith CRLF body) = hs"
    and "bodyLinesOf (joinWith CRLF hs @ CRLF @ CRLF @ joinWith CRLF body) = partLines body"
proof -
  have s: "splitCRLF (joinWith CRLF hs) = hs"
    using assms(1,2) by (intro splitCRLF_joinWith) simp_all
  have b: "splitCRLF (CRLF @ joinWith CRLF body) = [] # partLines body"
    using assms(3) splitCRLF_append[of "[]" "joinWith CRLF body"]
    by (simp add: splitCRLF_joinWith_concat partLines_def)
  have "splitCRLF (joinWith CRLF hs @ CRLF @ CRLF @ joinWith CRLF body) = hs @ [] # partLines body"
    using splitCRLF_append[of "joinWith CRLF hs" "CRLF @ joinWith CRLF body"] s b by simp
  moreover have "takeWhile (\<lambda>l. l \<noteq> []) (hs @ [] # partLines body) = hs"
    using assms(2) by (induction hs) auto
  moreover have "dropWhile (\<lambda>l. l \<noteq> []) (hs @ [] # partLines body) = [] # partLines body"
    using assms(2) by (induction hs) auto
  ultimately show "headerLinesOf (joinWith CRLF hs @ CRLF @ CRLF @ joinWith CRLF body) = hs"
    and "bodyLinesOf (joinWith CRLF hs @ CRLF @ CRLF @ joinWith CRLF body) = partLines body"
    by (simp_all add: headerLinesOf_def bodyLinesOf_def)
qed

lemma partLines_concat: "partLines (concat xs) = concat (map partLines xs)"
  by (induction xs) (simp_all add: partLines_def)

lemma partLines_append: "partLines (a @ b) = partLines a @ partLines b"
  by (simp add: partLines_def)

lemma partLines_delim: "lineSafe d \<Longrightarrow> partLines (d # p) = d # partLines p"
  by (simp add: partLines_def splitCRLF_line)

lemma mimeParts_message:
  assumes "hs \<noteq> []" and "\<forall>h \<in> set hs. h \<noteq> [] \<and> lineSafe h" and "lineSafe b"
    and "\<forall>p \<in> set ps. \<forall>l \<in> set (partLines p). l \<noteq> js ''--'' @ b \<and> l \<noteq> js ''--'' @ b @ js ''--''"
  shows "mimeParts b (joinWith CRLF hs @ CRLF @ CRLF @
           joinWith CRLF (concat (map (\<lambda>p. (js ''--'' @ b) # p) ps) @ [js ''--'' @ b @ js ''--''])) =
         map partLines ps"
proof -
  define d where "d = js ''--'' @ b"
  define dd where "dd = js ''--'' @ b @ js ''--''"
  have ld: "lineSafe d" "lineSafe dd"
    using assms(3) by (simp_all add: d_def dd_def lineSafe_js_body)
  have ne: "d \<noteq> dd" by (simp add: d_def dd_def js_def)
  have pl: "partLines (concat (map (\<lambda>p. d # p) ps) @ [dd]) =
            concat (map (\<lambda>p. d # p) (map partLines ps)) @ [dd]"
    using ld by (simp add: partLines_append partLines_concat partLines_delim comp_def)
       (simp add: partLines_def splitCRLF_line)
  have nd: "\<forall>p \<in> set (map partLines ps). d \<notin> set p"
    using assms(4) by (auto simp: d_def)
  have ndd: "dd \<notin> set (concat (map (\<lambda>p. d # p) (map partLines ps)))"
    using assms(4) ne by (auto simp: dd_def d_def)
  have "bodyLinesOf (joinWith CRLF hs @ CRLF @ CRLF @
           joinWith CRLF (concat (map (\<lambda>p. d # p) ps) @ [dd])) =
        concat (map (\<lambda>p. d # p) (map partLines ps)) @ [dd]"
    using splitCRLF_message(2)[OF assms(1,2), of "concat (map (\<lambda>p. d # p) ps) @ [dd]"] pl by simp
  then have "mimeParts b (joinWith CRLF hs @ CRLF @ CRLF @
           joinWith CRLF (concat (map (\<lambda>p. d # p) ps) @ [dd])) =
        tl (cutAt d (concat (map (\<lambda>p. d # p) (map partLines ps))))"
    unfolding mimeParts_def d_def[symmetric] dd_def[symmetric]
    using takeWhile_closing[OF ndd] by simp
  also have "\<dots> = map partLines ps"
    using cutAt_parts[OF nd] by simp
  finally show ?thesis unfolding d_def dd_def .
qed

lemma no_dash_prefix: "0x2D \<notin> set l \<Longrightarrow> \<not> prefix (js ''--'') l"
  by (cases l) (auto simp: js_def)

lemma not_mixed_prefix: "\<not> prefix (js ''--'') l \<Longrightarrow> \<not> prefix (js ''--mixed'') l"
  by (auto simp: js_def prefix_def)

lemma isB64Char_dash: "isB64Char c \<Longrightarrow> c \<noteq> 0x2D"
  by (auto simp: isB64Char_def b64val_def split: if_splits)

lemma payload_lines_nodash:
  "l \<in> set (splitCRLF (wrapBase64 (b64enc bs))) \<Longrightarrow> \<not> prefix (js ''--'') l"
proof -
  assume l: "l \<in> set (splitCRLF (wrapBase64 (b64enc bs)))"
  have "list_all isB64Char l"
    using base64Payload_wrap[of bs] l by (auto simp: base64Payload_def list_all_iff)
  then have "0x2D \<notin> set l" using isB64Char_dash by (auto simp: list_all_iff)
  then show ?thesis by (rule no_dash_prefix)
qed

lemma header_names_nodash:
  "\<not> prefix (js ''--'') (js ''Content-Type: '' @ w)"
  "\<not> prefix (js ''--'') (js ''Content-Transfer-Encoding: base64'')"
  "\<not> prefix (js ''--'') (js ''Content-ID: <'' @ w)"
  "\<not> prefix (js ''--'') (js ''Content-Disposition: '' @ w)"
  "\<not> prefix (js ''--'') []"
  "\<not> prefix (js ''--mixed'') (js ''Content-Type: multipart/alternative; boundary='' @ w)"
  "\<not> prefix (js ''--mixed'') []"
  "\<not> prefix (js ''--mixed'') (js ''--'' @ js ''alt'' @ w)"
  by (simp_all add: js_def)

lemma textPart_lines:
  assumes "lineSafe ct"
  shows "partLines [js ''Content-Type: '' @ ct @ js ''; charset='' @ [0x22] @ js ''utf-8'' @ [0x22],
                    js ''Content-Transfer-Encoding: base64'', [], wrapBase64 (b64enc bs)] =
         [js ''Content-Type: '' @ ct @ js ''; charset='' @ [0x22] @ js ''utf-8'' @ [0x22],
          js ''Content-Transfer-Encoding: base64'', []] @ splitCRLF (wrapBase64 (b64enc bs))"
  using assms by (simp add: partLines_def splitCRLF_line lineSafe_js_body)

lemma textPart_lines_nodash:
  assumes "lineSafe ct"
  shows "\<forall>l \<in> set (partLines [js ''Content-Type: '' @ ct @ js ''; charset='' @ [0x22] @ js ''utf-8'' @ [0x22],
                    js ''Content-Transfer-Encoding: base64'', [], wrapBase64 (b64enc bs)]).
           \<not> prefix (js ''--'') l"
  unfolding textPart_lines[OF assms]
  using payload_lines_nodash[of _ bs] header_names_nodash(1)[of "ct @ js ''; charset='' @ [0x22] @ js ''utf-8'' @ [0x22]"]
    header_names_nodash(2,5)
  by auto

lemma buildTextPart_nodash:
  assumes "buildTextPart c ct = Inr ls" and "lineSafe ct"
  shows "\<forall>l \<in> set (partLines ls). \<not> prefix (js ''--'') l"
  using assms(1) textPart_lines_nodash[OF assms(2)] unfolding buildTextPart_eq by auto

lemma buildAlternativeLines_nomixed:
  assumes "buildAlternativeLines (makeBoundary env k (js ''alt'')) t h True = Inr ls"
  shows "\<forall>l \<in> set (partLines ls). \<not> prefix (js ''--mixed'') l"
proof -
  define b where "b = makeBoundary env k (js ''alt'')"
  define P where "P = [js ''Content-Type: '' @ js ''text/plain'' @ js ''; charset='' @ [0x22] @ js ''utf-8'' @ [0x22],
         js ''Content-Transfer-Encoding: base64'', [],
         wrapBase64 (b64enc (textEncode (normalizeLineEndings (Some t))))]"
  define H where "H = [js ''Content-Type: '' @ js ''text/html'' @ js ''; charset='' @ [0x22] @ js ''utf-8'' @ [0x22],
         js ''Content-Transfer-Encoding: base64'', [],
         wrapBase64 (b64enc (textEncode (normalizeLineEndings (Some h))))]"
  have lb: "lineSafe b" by (simp add: b_def lineSafe_makeBoundary lineSafe_js_body)
  have ls: "ls = [js ''Content-Type: multipart/alternative; boundary='' @ [0x22] @ b @ [0x22], []] @
                 [js ''--'' @ b] @ P @ [js ''--'' @ b] @ H @ [js ''--'' @ b @ js ''--'']"
    using assms unfolding buildAlternativeLines_eq b_def P_def H_def by simp
  have pl: "partLines ls =
      [js ''Content-Type: multipart/alternative; boundary='' @ [0x22] @ b @ [0x22], []] @
      [js ''--'' @ b] @ partLines P @ [js ''--'' @ b] @ partLines H @ [js ''--'' @ b @ js ''--'']"
    unfolding ls using lb
    by (simp add: partLines_append partLines_delim lineSafe_js_body)
       (simp add: partLines_def splitCRLF_line lineSafe_js_body)
  have p: "\<forall>l \<in> set (partLines P). \<not> prefix (js ''--mixed'') l"
    unfolding P_def using textPart_lines_nodash[OF lineSafe_js_body(5)] not_mixed_prefix by blast
  have h: "\<forall>l \<in> set (partLines H). \<not> prefix (js ''--mixed'') l"
    unfolding H_def using textPart_lines_nodash[OF lineSafe_js_body(6)] not_mixed_prefix by blast
  have d: "\<not> prefix (js ''--mixed'') (js ''--'' @ b)" "\<not> prefix (js ''--mixed'') (js ''--'' @ b @ js ''--'')"
    unfolding b_def makeBoundary_def using header_names_nodash(8) by simp_all
  show ?thesis
    unfolding pl using p h d header_names_nodash(6,7) by auto
qed

lemma set_wrapped_lines:
  "l \<in> set (splitCRLF (wrapBase64 s)) \<Longrightarrow> set l \<subseteq> set s"
proof (cases "s = []")
  case True
  assume "l \<in> set (splitCRLF (wrapBase64 s))"
  then show ?thesis using True by (simp add: wrapBase64_def)
next
  case False
  assume l: "l \<in> set (splitCRLF (wrapBase64 s))"
  obtain ls where ls: "wrapBase64 s = joinWith CRLF ls" "concat ls = s"
    using wrapBase64_lines[of s] by blast
  have ne: "ls \<noteq> []" using ls(2) False by auto
  have "l \<in> set (concat (map splitCRLF ls))"
    using l unfolding ls(1) splitCRLF_joinWith_concat[OF ne] .
  then obtain x where x: "x \<in> set ls" "l \<in> set (splitCRLF x)" by auto
  have "set x \<subseteq> set s" using x(1) ls(2) by auto
  then show ?thesis using set_splitCRLF[OF x(2)] by blast
qed

lemma buildAttachmentPart_nodash:
  assumes "buildAttachmentPart a = Some p" and "wellDelimited a"
  shows "\<forall>l \<in> set (partLines p). \<not> prefix (js ''--'') l"
proof -
  define mime where "mime = strOr (attachMimeTag a) (js ''application/octet-stream'')"
  define fname where "fname = sanitizeFilename (Some (strOr (att_fileName a) (js ''attachment'')))"
  define cid where "cid = replaceClass (\<lambda>c. c = 0x3C \<or> c = 0x3E) [] (sanitizeHeaderValue (contentId a))"
  define hasId where "hasId \<longleftrightarrow> strOr (contentId a) [] \<noteq> []"
  define ct where "ct = js ''Content-Type: '' @ mime @ js ''; name='' @ [0x22] @ fname @ [0x22]"
  define cd where "cd = js ''Content-Disposition: '' @ (if hasId then js ''inline'' else js ''attachment'') @
          js ''; filename='' @ [0x22] @ fname @ [0x22]"
  define idl where "idl = (if hasId \<and> cid \<noteq> [] then [js ''Content-ID: <'' @ cid @ js ''>''] else [])"
  define w where "w = wrapBase64 (extractBase64 (strOr (contentBase64 a) []))"
  have p: "p = [ct, js ''Content-Transfer-Encoding: base64''] @ idl @ [cd, [], w]"
    using assms(1)
    by (simp add: buildAttachmentPart_def Let_def ct_def cd_def idl_def w_def mime_def
        fname_def cid_def hasId_def split: if_splits)
  have lm: "lineSafe mime"
    using assms(2) by (simp add: mime_def wellDelimited_def lineSafe_strOr lineSafe_js_body)
  have lf: "lineSafe fname" by (simp add: fname_def)
  have lc: "lineSafe cid" by (simp add: cid_def lineSafe_replaceClass)
  have s1: "lineSafe ct" using lm lf by (simp add: ct_def lineSafe_js_body)
  have s3: "\<forall>l \<in> set idl. lineSafe l"
    using lc by (simp add: idl_def lineSafe_js_body lineSafe_lit)
  have s4: "lineSafe cd" using lf by (simp add: cd_def lineSafe_js_body)
  have pi: "partLines idl = idl"
    using s3 by (simp add: idl_def partLines_def splitCRLF_line)
  have pl: "partLines p = [ct, js ''Content-Transfer-Encoding: base64''] @ idl @ [cd, []] @ splitCRLF w"
    unfolding p partLines_append pi using s1 s4
    by (simp add: partLines_def splitCRLF_line lineSafe_js_body)
  have n1: "\<not> prefix (js ''--'') ct" unfolding ct_def by (rule header_names_nodash(1))
  have n3: "\<forall>l \<in> set idl. \<not> prefix (js ''--'') l"
    using header_names_nodash(3) by (simp add: idl_def)
  have n4: "\<not> prefix (js ''--'') cd" unfolding cd_def by (rule header_names_nodash(4))
  have n5: "\<forall>l \<in> set (splitCRLF w). \<not> prefix (js ''--'') l"
  proof
    fix l assume "l \<in> set (splitCRLF w)"
    then have "set l \<subseteq> set (extractBase64 (strOr (contentBase64 a) []))"
      unfolding w_def by (rule set_wrapped_lines)
    then have "0x2D \<notin> set l" using assms(2) by (auto simp: wellDelimited_def)
    then show "\<not> prefix (js ''--'') l" by (rule no_dash_prefix)
  qed
  show ?thesis
    unfolding pl using n1 n3 n4 n5 header_names_nodash(2,5) by auto
qed

lemma delimiter_mixed:
  "prefix (js ''--mixed'') (js ''--'' @ makeBoundary env k (js ''mixed''))"
  "prefix (js ''--mixed'') (js ''--'' @ makeBoundary env k (js ''mixed'') @ w)"
  by (simp_all add: makeBoundary_def js_def)

section \<open>The assembler, branch by branch\<close>

lemma buildTextPart_ok:
  assumes "lineSafe ct"
  shows "\<exists>ls. buildTextPart c ct = Inr ls \<and> ls \<noteq> [] \<and> hd ls \<noteq> [] \<and> (\<forall>l \<in> set ls. crlfOnly l)"
  using assms
  by (simp add: buildTextPart_eq crlfOnly_wrapBase64 crlfOnly_lineSafe lineSafe_js_body)

lemma buildAlternativeLines_ok:
  assumes "lineSafe b"
  shows "\<exists>ls. buildAlternativeLines b t h hdr = Inr ls \<and> ls \<noteq> [] \<and> hd ls \<noteq> [] \<and>
              (\<forall>l \<in> set ls. crlfOnly l)"
  using assms
  by (simp add: buildAlternativeLines_eq crlfOnly_wrapBase64 crlfOnly_lineSafe lineSafe_js_body)
     (simp add: js_def)

lemma buildEmlLines_mixed:
  assumes "attachments m = Some atts" and "atts \<noteq> []" and "commonHeaders env m = Inr hs"
  shows "\<exists>first. first \<noteq> [] \<and> (\<forall>l \<in> set first. crlfOnly l) \<and>
     (\<forall>l \<in> set (partLines first). \<not> prefix (js ''--mixed'') l) \<and>
     buildEmlLines env m =
       Inr (hs @ [js ''Content-Type: multipart/mixed; boundary='' @ [0x22] @
                    makeBoundary env 0 (js ''mixed'') @ [0x22]],
            [js ''--'' @ makeBoundary env 0 (js ''mixed'')] @ first @
            concat (map (\<lambda>p. (js ''--'' @ makeBoundary env 0 (js ''mixed'')) # p)
                      (List.map_filter buildAttachmentPart atts)) @
            [js ''--'' @ makeBoundary env 0 (js ''mixed'') @ js ''--''])"
proof -
  let ?bt = "normalizeLineEndings (Some (strOr (bodyContent m) []))"
  let ?bh = "normalizeLineEndings (Some (strOr (bodyContentHTML m) []))"
  have la: "lineSafe (makeBoundary env 1 (js ''alt''))"
    by (simp add: lineSafe_makeBoundary lineSafe_js_body)
  consider (bothBodies) "trim ?bt \<noteq> []" "trim ?bh \<noteq> []"
    | (onlyHtml) "trim ?bt = []" "trim ?bh \<noteq> []"
    | (onlyText) "trim ?bt \<noteq> []" "trim ?bh = []"
    | (noBody) "trim ?bt = []" "trim ?bh = []"
    by blast
  then show ?thesis
  proof cases
    case bothBodies
    obtain F where F: "buildAlternativeLines (makeBoundary env 1 (js ''alt'')) ?bt ?bh True = Inr F"
      "F \<noteq> []" "\<forall>l \<in> set F. crlfOnly l"
      using buildAlternativeLines_ok[OF la] by blast
    have "buildEmlLines env m =
       Inr (hs @ [js ''Content-Type: multipart/mixed; boundary='' @ [0x22] @
                    makeBoundary env 0 (js ''mixed'') @ [0x22]],
            [js ''--'' @ makeBoundary env 0 (js ''mixed'')] @ F @
            concat (map (\<lambda>p. (js ''--'' @ makeBoundary env 0 (js ''mixed'')) # p)
                      (List.map_filter buildAttachmentPart atts)) @
            [js ''--'' @ makeBoundary env 0 (js ''mixed'') @ js ''--''])"
      using bothBodies F(1) assms by (simp add: buildEmlLines_def Let_def pushAttachments_eq)
    then show ?thesis using F(2,3) buildAlternativeLines_nomixed[OF F(1)] by blast
  next
    case onlyHtml
    obtain F where F: "buildTextPart ?bh (js ''text/html'') = Inr F"
      "F \<noteq> []" "\<forall>l \<in> set F. crlfOnly l"
      using buildTextPart_ok[OF lineSafe_js_body(6)] by blast
    have "buildEmlLines env m =
       Inr (hs @ [js ''Content-Type: multipart/mixed; boundary='' @ [0x22] @
                    makeBoundary env 0 (js ''mixed'') @ [0x22]],
            [js ''--'' @ makeBoundary env 0 (js ''mixed'')] @ F @
            concat (map (\<lambda>p. (js ''--'' @ makeBoundary env 0 (js ''mixed'')) # p)
                      (List.map_filter buildAttachmentPart atts)) @
            [js ''--'' @ makeBoundary env 0 (js ''mixed'') @ js ''--''])"
      using onlyHtml F(1) assms by (simp add: buildEmlLines_def Let_def pushAttachments_eq)
    moreover have "\<forall>l \<in> set (partLines F). \<not> prefix (js ''--mixed'') l"
      using buildTextPart_nodash[OF F(1) lineSafe_js_body(6)] not_mixed_prefix by blast
    ultimately show ?thesis using F(2,3) by blast
  next
    case onlyText
    obtain F where F: "buildTextPart ?bt (js ''text/plain'') = Inr F"
      "F \<noteq> []" "\<forall>l \<in> set F. crlfOnly l"
      using buildTextPart_ok[OF lineSafe_js_body(5)] by blast
    have "buildEmlLines env m =
       Inr (hs @ [js ''Content-Type: multipart/mixed; boundary='' @ [0x22] @
                    makeBoundary env 0 (js ''mixed'') @ [0x22]],
            [js ''--'' @ makeBoundary env 0 (js ''mixed'')] @ F @
            concat (map (\<lambda>p. (js ''--'' @ makeBoundary env 0 (js ''mixed'')) # p)
                      (List.map_filter buildAttachmentPart atts)) @
            [js ''--'' @ makeBoundary env 0 (js ''mixed'') @ js ''--''])"
      using onlyText F(1) assms by (simp add: buildEmlLines_def Let_def pushAttachments_eq)
    moreover have "\<forall>l \<in> set (partLines F). \<not> prefix (js ''--mixed'') l"
      using buildTextPart_nodash[OF F(1) lineSafe_js_body(5)] not_mixed_prefix by blast
    ultimately show ?thesis using F(2,3) by blast
  next
    case noBody
    obtain F where F: "buildTextPart [] (js ''text/plain'') = Inr F"
      "F \<noteq> []" "\<forall>l \<in> set F. crlfOnly l"
      using buildTextPart_ok[OF lineSafe_js_body(5)] by blast
    have "buildEmlLines env m =
       Inr (hs @ [js ''Content-Type: multipart/mixed; boundary='' @ [0x22] @
                    makeBoundary env 0 (js ''mixed'') @ [0x22]],
            [js ''--'' @ makeBoundary env 0 (js ''mixed'')] @ F @
            concat (map (\<lambda>p. (js ''--'' @ makeBoundary env 0 (js ''mixed'')) # p)
                      (List.map_filter buildAttachmentPart atts)) @
            [js ''--'' @ makeBoundary env 0 (js ''mixed'') @ js ''--''])"
      using noBody F(1) assms by (simp add: buildEmlLines_def Let_def pushAttachments_eq)
    moreover have "\<forall>l \<in> set (partLines F). \<not> prefix (js ''--mixed'') l"
      using buildTextPart_nodash[OF F(1) lineSafe_js_body(5)] not_mixed_prefix by blast
    ultimately show ?thesis using F(2,3) by blast
  qed
qed

lemma buildEmlLines_alternative:
  assumes "attachmentsOf m = []"
    and "trim (normalizeLineEndings (Some (strOr (bodyContent m) []))) \<noteq> []"
    and "trim (normalizeLineEndings (Some (strOr (bodyContentHTML m) []))) \<noteq> []"
    and "commonHeaders env m = Inr hs"
  shows "buildEmlLines env m =
     Inr (hs @ [js ''Content-Type: multipart/alternative; boundary='' @ [0x22] @
                  makeBoundary env 0 (js ''alt'') @ [0x22]],
          [js ''--'' @ makeBoundary env 0 (js ''alt''),
           js ''Content-Type: '' @ js ''text/plain'' @ js ''; charset='' @ [0x22] @ js ''utf-8'' @ [0x22],
           js ''Content-Transfer-Encoding: base64'',
           [],
           wrapBase64 (b64enc (textEncode (normalizeLineEndings
             (Some (normalizeLineEndings (Some (strOr (bodyContent m) []))))))),
           js ''--'' @ makeBoundary env 0 (js ''alt''),
           js ''Content-Type: '' @ js ''text/html'' @ js ''; charset='' @ [0x22] @ js ''utf-8'' @ [0x22],
           js ''Content-Transfer-Encoding: base64'',
           [],
           wrapBase64 (b64enc (textEncode (normalizeLineEndings
             (Some (normalizeLineEndings (Some (strOr (bodyContentHTML m) []))))))),
           js ''--'' @ makeBoundary env 0 (js ''alt'') @ js ''--''])"
  using assms
  by (simp add: buildEmlLines_def Let_def attachmentsOf_def buildAlternativeLines_eq
      split: option.splits)

lemma buildEmlLines_single:
  assumes "attachmentsOf m = []"
    and "trim (normalizeLineEndings (Some (strOr (bodyContent m) []))) = [] \<or>
         trim (normalizeLineEndings (Some (strOr (bodyContentHTML m) []))) = []"
    and "commonHeaders env m = Inr hs"
  shows "\<exists>ct text. lineSafe ct \<and>
     buildEmlLines env m =
       Inr (hs @ [js ''Content-Type: '' @ ct @ js ''; charset='' @ [0x22] @ js ''utf-8'' @ [0x22],
                  js ''Content-Transfer-Encoding: base64''],
            [wrapBase64 (b64enc (textEncode text))])"
proof -
  let ?bt = "normalizeLineEndings (Some (strOr (bodyContent m) []))"
  let ?bh = "normalizeLineEndings (Some (strOr (bodyContentHTML m) []))"
  have j: "js ''Content-Type: text/plain; charset='' = js ''Content-Type: '' @ js ''text/plain'' @ js ''; charset=''"
    by (simp add: js_def)
  consider (onlyHtml) "trim ?bh \<noteq> []" "trim ?bt = []"
    | (onlyText) "trim ?bh = []" "trim ?bt \<noteq> []"
    | (noBody) "trim ?bh = []" "trim ?bt = []"
    using assms(2) by blast
  then show ?thesis
  proof cases
    case onlyHtml
    have "buildEmlLines env m =
       Inr (hs @ [js ''Content-Type: '' @ js ''text/html'' @ js ''; charset='' @ [0x22] @ js ''utf-8'' @ [0x22],
                  js ''Content-Transfer-Encoding: base64''],
            [wrapBase64 (b64enc (textEncode ?bh))])"
      using onlyHtml assms(1,3)
      by (simp add: buildEmlLines_def Let_def attachmentsOf_def base64EncodeUtf8_eq split: option.splits)
    then show ?thesis using lineSafe_js_body(6) by blast
  next
    case onlyText
    have "buildEmlLines env m =
       Inr (hs @ [js ''Content-Type: '' @ js ''text/plain'' @ js ''; charset='' @ [0x22] @ js ''utf-8'' @ [0x22],
                  js ''Content-Transfer-Encoding: base64''],
            [wrapBase64 (b64enc (textEncode ?bt))])"
      using onlyText assms(1,3)
      by (simp add: buildEmlLines_def Let_def attachmentsOf_def base64EncodeUtf8_eq split: option.splits)
    then show ?thesis using lineSafe_js_body(5) by blast
  next
    case noBody
    have "buildEmlLines env m =
       Inr (hs @ [js ''Content-Type: '' @ js ''text/plain'' @ js ''; charset='' @ [0x22] @ js ''utf-8'' @ [0x22],
                  js ''Content-Transfer-Encoding: base64''],
            [wrapBase64 (b64enc (textEncode []))])"
      using noBody assms(1,3)
      by (simp add: buildEmlLines_def Let_def attachmentsOf_def base64EncodeUtf8_eq j split: option.splits)
    then show ?thesis using lineSafe_js_body(5) by blast
  qed
qed

lemma buildAttachmentPart_lines:
  assumes "buildAttachmentPart a = Some p" and "cleanAttachment a"
  shows "\<forall>l \<in> set p. crlfOnly l"
proof -
  have m: "lineSafe (strOr (attachMimeTag a) (js ''application/octet-stream''))"
    using assms(2) by (simp add: cleanAttachment_def lineSafe_strOr lineSafe_js_body)
  have b: "lineSafe (extractBase64 (strOr (contentBase64 a) []))"
    using assms(2) by (simp add: cleanAttachment_def lineSafe_extractBase64)
  have c: "lineSafe (replaceClass (\<lambda>c. c = 0x3C \<or> c = 0x3E) [] (sanitizeHeaderValue (contentId a)))"
    by (simp add: lineSafe_replaceClass)
  show ?thesis
    using assms(1) m b c
    by (auto simp: buildAttachmentPart_def Let_def crlfOnly_wrapBase64 crlfOnly_lineSafe
        lineSafe_js_body lineSafe_lit split: if_splits)
qed

lemma attachment_parts_lines:
  assumes "\<forall>a \<in> set atts. cleanAttachment a"
  shows "\<forall>l \<in> set (concat (map (\<lambda>p. (js ''--'' @ b) # p) (List.map_filter buildAttachmentPart atts))).
           l = js ''--'' @ b \<or> crlfOnly l"
  using assms
proof (induction atts)
  case Nil
  show ?case by (simp add: List.map_filter_simps)
next
  case (Cons a atts)
  show ?case
  proof (cases "buildAttachmentPart a")
    case None
    then show ?thesis using Cons by (simp add: List.map_filter_simps)
  next
    case (Some p)
    then have "\<forall>l \<in> set p. crlfOnly l" using buildAttachmentPart_lines Cons.prems by simp
    then show ?thesis using Some Cons by (auto simp: List.map_filter_simps)
  qed
qed

lemma joinWith_first:
  "x \<noteq> [] \<Longrightarrow> \<not> isCrLf (hd x) \<Longrightarrow> \<not> prefix CRLF (joinWith CRLF (x # rest))"
  by (cases x; cases rest) (auto simp: CRLF_def isCrLf_def)

section \<open>The assembled message, in general\<close>

lemma headerLine_safe: "headerLine h \<Longrightarrow> h \<noteq> [] \<and> lineSafe h"
  by (simp add: headerLine_def)

lemma boundary_line_first:
  "\<not> prefix CRLF (joinWith CRLF ((js ''--'' @ b) # rest))"
  by (rule joinWith_first) (simp_all add: js_def isCrLf_def)

lemma content_type_line_safe:
  "lineSafe b \<Longrightarrow> lineSafe (js ''Content-Type: multipart/mixed; boundary='' @ [0x22] @ b @ [0x22])"
  "lineSafe b \<Longrightarrow> lineSafe (js ''Content-Type: multipart/alternative; boundary='' @ [0x22] @ b @ [0x22])"
  "lineSafe ct \<Longrightarrow> lineSafe (js ''Content-Type: '' @ ct @ js ''; charset='' @ [0x22] @ js ''utf-8'' @ [0x22])"
  "js ''Content-Type: multipart/mixed; boundary='' @ [0x22] @ b @ [0x22] \<noteq> []"
  "js ''Content-Type: multipart/alternative; boundary='' @ [0x22] @ b @ [0x22] \<noteq> []"
  "js ''Content-Type: '' @ ct @ js ''; charset='' @ [0x22] @ js ''utf-8'' @ [0x22] \<noteq> []"
  by (simp_all add: lineSafe_js_body)

lemma transfer_encoding_nonempty: "js ''Content-Transfer-Encoding: base64'' \<noteq> []"
  by (simp add: js_def)

lemma buildEmlLines_ok_mixed:
  assumes "attachments m = Some atts" and "atts \<noteq> []"
  shows "\<exists>hs ls. buildEmlLines env m = Inr (hs, ls) \<and> hs \<noteq> [] \<and>
     (\<forall>h \<in> set hs. h \<noteq> [] \<and> lineSafe h) \<and>
     \<not> prefix CRLF (joinWith CRLF ls) \<and>
     ((\<forall>a \<in> set atts. cleanAttachment a) \<longrightarrow> (\<forall>l \<in> set ls. crlfOnly l))"
proof -
  obtain hs where hs: "commonHeaders env m = Inr hs" "hs \<noteq> []" "\<forall>h \<in> set hs. headerLine h"
    using commonHeaders_ok by blast
  have hsafe: "\<forall>h \<in> set hs. h \<noteq> [] \<and> lineSafe h" using hs(3) headerLine_safe by blast
  define B where "B = makeBoundary env 0 (js ''mixed'')"
  have lb: "lineSafe B" by (simp add: B_def lineSafe_makeBoundary lineSafe_js_body)
  define parts where
    "parts = concat (map (\<lambda>p. (js ''--'' @ B) # p) (List.map_filter buildAttachmentPart atts))"
  obtain first where f: "first \<noteq> []" "\<forall>l \<in> set first. crlfOnly l"
    "buildEmlLines env m =
       Inr (hs @ [js ''Content-Type: multipart/mixed; boundary='' @ [0x22] @ B @ [0x22]],
            [js ''--'' @ B] @ first @ parts @ [js ''--'' @ B @ js ''--''])"
    using buildEmlLines_mixed[OF assms hs(1), folded B_def, folded parts_def] by blast
  define hs' where "hs' = hs @ [js ''Content-Type: multipart/mixed; boundary='' @ [0x22] @ B @ [0x22]]"
  define ls where "ls = [js ''--'' @ B] @ first @ parts @ [js ''--'' @ B @ js ''--'']"
  have e: "buildEmlLines env m = Inr (hs', ls)" unfolding hs'_def ls_def by (rule f(3))
  have 0: "hs' \<noteq> []" by (simp add: hs'_def)
  have 1: "\<forall>h \<in> set hs'. h \<noteq> [] \<and> lineSafe h"
    using hsafe content_type_line_safe(1)[OF lb] content_type_line_safe(4)[of B]
    by (simp add: hs'_def)
  have lc: "ls = (js ''--'' @ B) # (first @ parts @ [js ''--'' @ B @ js ''--''])"
    by (simp add: ls_def)
  have 2: "\<not> prefix CRLF (joinWith CRLF ls)"
    unfolding lc by (rule boundary_line_first)
  have 3: "crlfOnly (js ''--'' @ B)" "crlfOnly (js ''--'' @ B @ js ''--'')"
    using lb by (simp_all add: crlfOnly_lineSafe lineSafe_js_body)
  have 4: "(\<forall>a \<in> set atts. cleanAttachment a) \<longrightarrow> (\<forall>l \<in> set ls. crlfOnly l)"
  proof
    assume "\<forall>a \<in> set atts. cleanAttachment a"
    then have "\<forall>l \<in> set parts. l = js ''--'' @ B \<or> crlfOnly l"
      unfolding parts_def by (rule attachment_parts_lines)
    then have "\<forall>l \<in> set parts. crlfOnly l" using 3(1) by auto
    then show "\<forall>l \<in> set ls. crlfOnly l"
      using 3 f(2) by (simp add: ls_def ball_Un)
  qed
  show ?thesis using e 0 1 2 4 by blast
qed

lemma buildEmlLines_ok_alternative:
  assumes "attachmentsOf m = []"
    and "trim (normalizeLineEndings (Some (strOr (bodyContent m) []))) \<noteq> []"
    and "trim (normalizeLineEndings (Some (strOr (bodyContentHTML m) []))) \<noteq> []"
  shows "\<exists>hs ls. buildEmlLines env m = Inr (hs, ls) \<and> hs \<noteq> [] \<and>
     (\<forall>h \<in> set hs. h \<noteq> [] \<and> lineSafe h) \<and>
     \<not> prefix CRLF (joinWith CRLF ls) \<and> (\<forall>l \<in> set ls. crlfOnly l)"
proof -
  obtain hs where hs: "commonHeaders env m = Inr hs" "hs \<noteq> []" "\<forall>h \<in> set hs. headerLine h"
    using commonHeaders_ok by blast
  have hsafe: "\<forall>h \<in> set hs. h \<noteq> [] \<and> lineSafe h" using hs(3) headerLine_safe by blast
  define B where "B = makeBoundary env 0 (js ''alt'')"
  have lb: "lineSafe B" by (simp add: B_def lineSafe_makeBoundary lineSafe_js_body)
  define hs' where "hs' = hs @ [js ''Content-Type: multipart/alternative; boundary='' @ [0x22] @ B @ [0x22]]"
  define pl where "pl = wrapBase64 (b64enc (textEncode (normalizeLineEndings
             (Some (normalizeLineEndings (Some (strOr (bodyContent m) [])))))))"
  define ht where "ht = wrapBase64 (b64enc (textEncode (normalizeLineEndings
             (Some (normalizeLineEndings (Some (strOr (bodyContentHTML m) [])))))))"
  define rest where "rest =
          [js ''Content-Type: '' @ js ''text/plain'' @ js ''; charset='' @ [0x22] @ js ''utf-8'' @ [0x22],
           js ''Content-Transfer-Encoding: base64'',
           [],
           pl,
           js ''--'' @ B,
           js ''Content-Type: '' @ js ''text/html'' @ js ''; charset='' @ [0x22] @ js ''utf-8'' @ [0x22],
           js ''Content-Transfer-Encoding: base64'',
           [],
           ht,
           js ''--'' @ B @ js ''--'']"
  have e: "buildEmlLines env m = Inr (hs', (js ''--'' @ B) # rest)"
    unfolding hs'_def rest_def pl_def ht_def B_def
    by (rule buildEmlLines_alternative[OF assms hs(1)])
  have 0: "hs' \<noteq> []" by (simp add: hs'_def)
  have 1: "\<forall>h \<in> set hs'. h \<noteq> [] \<and> lineSafe h"
    using hsafe content_type_line_safe(2)[OF lb] content_type_line_safe(5)[of B]
    by (simp add: hs'_def)
  have 2: "\<not> prefix CRLF (joinWith CRLF ((js ''--'' @ B) # rest))"
    by (rule boundary_line_first)
  have p: "crlfOnly pl" "crlfOnly ht"
    by (simp_all add: pl_def ht_def crlfOnly_wrapBase64)
  have 3: "\<forall>l \<in> set rest. crlfOnly l"
    using p lb unfolding rest_def
    by (simp add: crlfOnly_lineSafe lineSafe_js_body)
  have 4: "\<forall>l \<in> set ((js ''--'' @ B) # rest). crlfOnly l"
    using 3 lb by (simp add: crlfOnly_lineSafe lineSafe_js_body)
  show ?thesis using e 0 1 2 4 by blast
qed

lemma buildEmlLines_ok_single:
  assumes "attachmentsOf m = []"
    and "trim (normalizeLineEndings (Some (strOr (bodyContent m) []))) = [] \<or>
         trim (normalizeLineEndings (Some (strOr (bodyContentHTML m) []))) = []"
  shows "\<exists>hs ls. buildEmlLines env m = Inr (hs, ls) \<and> hs \<noteq> [] \<and>
     (\<forall>h \<in> set hs. h \<noteq> [] \<and> lineSafe h) \<and>
     \<not> prefix CRLF (joinWith CRLF ls) \<and> (\<forall>l \<in> set ls. crlfOnly l)"
proof -
  obtain hs where hs: "commonHeaders env m = Inr hs" "hs \<noteq> []" "\<forall>h \<in> set hs. headerLine h"
    using commonHeaders_ok by blast
  have hsafe: "\<forall>h \<in> set hs. h \<noteq> [] \<and> lineSafe h" using hs(3) headerLine_safe by blast
  obtain ct content where s: "lineSafe ct"
    "buildEmlLines env m =
       Inr (hs @ [js ''Content-Type: '' @ ct @ js ''; charset='' @ [0x22] @ js ''utf-8'' @ [0x22],
                  js ''Content-Transfer-Encoding: base64''],
            [wrapBase64 (b64enc (textEncode content))])"
    using buildEmlLines_single[OF assms hs(1)] by blast
  define hs' where "hs' = hs @ [js ''Content-Type: '' @ ct @ js ''; charset='' @ [0x22] @ js ''utf-8'' @ [0x22],
                  js ''Content-Transfer-Encoding: base64'']"
  define p where "p = wrapBase64 (b64enc (textEncode content))"
  have e: "buildEmlLines env m = Inr (hs', [p])" unfolding hs'_def p_def by (rule s(2))
  have 0: "hs' \<noteq> []" by (simp add: hs'_def)
  have 1: "\<forall>h \<in> set hs'. h \<noteq> [] \<and> lineSafe h"
    using hsafe content_type_line_safe(3)[OF s(1)] content_type_line_safe(6)[of ct]
      transfer_encoding_nonempty lineSafe_js_body(4)
    by (simp add: hs'_def)
  have 2: "\<not> prefix CRLF (joinWith CRLF [p])"
  proof (cases "b64enc (textEncode content) = []")
    case True
    then show ?thesis by (simp add: p_def wrapBase64_def CRLF_def)
  next
    case False
    then show ?thesis by (simp add: p_def wrapBase64_first)
  qed
  have 3: "\<forall>l \<in> set [p]. crlfOnly l" by (simp add: p_def crlfOnly_wrapBase64)
  show ?thesis using e 0 1 2 3 by blast
qed

lemma buildEmlLines_ok:
  "\<exists>hs ls. buildEmlLines env m = Inr (hs, ls) \<and> hs \<noteq> [] \<and>
     (\<forall>h \<in> set hs. h \<noteq> [] \<and> lineSafe h) \<and>
     \<not> prefix CRLF (joinWith CRLF ls) \<and>
     ((\<forall>a \<in> set (attachmentsOf m). cleanAttachment a) \<longrightarrow> (\<forall>l \<in> set ls. crlfOnly l))"
proof (cases "attachmentsOf m = []")
  case False
  then obtain atts where atts: "attachments m = Some atts" "atts \<noteq> []" "attachmentsOf m = atts"
    by (auto simp: attachmentsOf_def split: option.splits)
  show ?thesis unfolding atts(3) by (rule buildEmlLines_ok_mixed[OF atts(1,2)])
next
  case True
  show ?thesis
  proof (cases "trim (normalizeLineEndings (Some (strOr (bodyContent m) []))) \<noteq> [] \<and>
                trim (normalizeLineEndings (Some (strOr (bodyContentHTML m) []))) \<noteq> []")
    case both: True
    show ?thesis
      using buildEmlLines_ok_alternative[OF True both[THEN conjunct1] both[THEN conjunct2]]
      by blast
  next
    case False
    then have "trim (normalizeLineEndings (Some (strOr (bodyContent m) []))) = [] \<or>
               trim (normalizeLineEndings (Some (strOr (bodyContentHTML m) []))) = []" by blast
    then show ?thesis using buildEmlLines_ok_single[OF True] by blast
  qed
qed

lemma buildEmlFromMessage_ok:
  "\<exists>hs body. buildEmlFromMessage env m = Inr (joinWith CRLF hs @ CRLF @ CRLF @ body) \<and>
     hs \<noteq> [] \<and> (\<forall>h \<in> set hs. h \<noteq> [] \<and> lineSafe h) \<and> \<not> prefix CRLF body \<and>
     ((\<forall>a \<in> set (attachmentsOf m). cleanAttachment a) \<longrightarrow> crlfOnly body)"
proof -
  obtain hs ls where l: "buildEmlLines env m = Inr (hs, ls)" "hs \<noteq> []"
     "\<forall>h \<in> set hs. h \<noteq> [] \<and> lineSafe h" "\<not> prefix CRLF (joinWith CRLF ls)"
     "(\<forall>a \<in> set (attachmentsOf m). cleanAttachment a) \<longrightarrow> (\<forall>l \<in> set ls. crlfOnly l)"
    using buildEmlLines_ok by blast
  have "buildEmlFromMessage env m = Inr (joinWith CRLF hs @ CRLF @ CRLF @ joinWith CRLF ls)"
    by (simp add: buildEmlFromMessage_def l(1))
  moreover have "(\<forall>a \<in> set (attachmentsOf m). cleanAttachment a) \<longrightarrow> crlfOnly (joinWith CRLF ls)"
    using l(5) crlfOnly_joinWith by blast
  ultimately show ?thesis using l(2,3,4) by blast
qed

lemma sanitizeFilename_nonempty: "sanitizeFilename f \<noteq> []"
  by (simp add: sanitizeFilename_def Let_def js_def)

lemma deriveEmlFileName_nonempty: "deriveEmlFileName m \<noteq> []"
  by (simp add: deriveEmlFileName_def Let_def sanitizeFilename_nonempty) (simp add: js_def)

section \<open>Claims\<close>

text \<open>
  C6. For every input, present or absent, the file name that \<open>sanitizeFilename\<close>
  returns is not empty, has no control character, none of the characters
  \<open><>:"|?*\<close>, no slash or backslash, hence no \<open>../\<close> or \<open>..\\<close> sequence
  and no drive-letter prefix; when the sanitation pipeline leaves nothing, and for an
  absent input, the result is \<open>message.eml\<close>. The function is total: it has no
  error result.
\<close>

theorem sanitizeFilename_safe:
  "sanitizeFilename f \<noteq> [] \<and>
   (\<forall>c \<in> set (sanitizeFilename f). \<not> isControl c \<and> \<not> isIllegalFs c \<and> \<not> isSlash c) \<and>
   \<not> sublist (js ''../'') (sanitizeFilename f) \<and>
   \<not> sublist [0x2E, 0x2E, 0x5C] (sanitizeFilename f) \<and>
   \<not> hasDrivePrefix (sanitizeFilename f) \<and>
   (sanitizeCore f = [] \<longrightarrow> sanitizeFilename f = js ''message.eml'') \<and>
   sanitizeFilename None = js ''message.eml''"
proof -
  let ?r = "sanitizeFilename f"
  have ne: "?r \<noteq> []" by (simp add: sanitizeFilename_def Let_def js_def)
  have ch: "\<forall>c \<in> set ?r. \<not> isControl c \<and> \<not> isIllegalFs c \<and> \<not> isSlash c"
    using sanitizeFilename_chars by blast
  have a: "\<not> sublist (js ''../'') ?r"
  proof
    assume "sublist (js ''../'') ?r"
    then have "0x2F \<in> set ?r" using sublist_mem by (fastforce simp: js_def)
    then show False using ch by (auto simp: isSlash_def)
  qed
  have b: "\<not> sublist [0x2E, 0x2E, 0x5C] ?r"
  proof
    assume "sublist [0x2E, 0x2E, 0x5C] ?r"
    then have "0x5C \<in> set ?r" using sublist_mem by fastforce
    then show False using ch by (auto simp: isSlash_def)
  qed
  have d: "\<not> hasDrivePrefix ?r"
  proof
    assume "hasDrivePrefix ?r"
    then have "0x3A \<in> set ?r" by (rule hasDrivePrefix_colon)
    then show False using ch by (auto simp: isIllegalFs_def js_def)
  qed
  have e: "sanitizeCore f = [] \<longrightarrow> ?r = js ''message.eml''"
    by (simp add: sanitizeFilename_def)
  have n: "sanitizeFilename None = js ''message.eml''"
    by (simp add: sanitizeFilename_def sanitizeCore_def strOr_def trim_def replaceClass_def)
  show ?thesis using ne ch a b d e n by blast
qed

theorem sanitizeFilename_safe_witness:
  "sanitizeCore (Some (js '' ../ '')) = [] \<and>
   sanitizeFilename (Some (js '' ../ '')) = js ''message.eml'' \<and>
   sanitizeFilename (Some (js ''C:/a<b'')) = js ''a_b'' \<and>
   0x5F \<in> set (sanitizeFilename (Some (js ''C:/a<b''))) \<and>
   \<not> isControl 0x5F \<and> \<not> isIllegalFs 0x5F \<and> \<not> isSlash 0x5F"
proof -
  have h: "sanitizeCore (Some (js '' ../ '')) = []"
    by (simp add: sanitizeCore_def js_def strOr_def trim_def replaceClass_def isJsSpace_def
        isControl_def isIllegalFs_def isSlash_def)
  have e: "sanitizeFilename (Some (js ''C:/a<b'')) = js ''a_b''"
    by (simp add: sanitizeFilename_def sanitizeCore_def js_def strOr_def trim_def replaceClass_def
        isJsSpace_def isControl_def isIllegalFs_def isSlash_def isAsciiLetter_def)
  have m: "0x5F \<in> set (sanitizeFilename (Some (js ''C:/a<b'')))"
    unfolding e by (simp add: js_def)
  show ?thesis
    using h e m sanitizeFilename_safe[of "Some (js '' ../ '')"]
      sanitizeFilename_safe[of "Some (js ''C:/a<b'')"]
    by blast
qed

text \<open>
  C8, as the code has it. On every input, header-value sanitation treats each control
  character other than CR and LF as a space, one for one: the result is what sanitation
  gives when those characters are replaced by spaces beforehand. On an input without CR
  and LF the result is exactly that replacement, trimmed, so a run of \<open>n\<close> such
  characters becomes \<open>n\<close> spaces. On every input the sanitized value has no CR, no LF
  and no other control character. What a CR/LF sequence becomes is not stated.
\<close>

theorem sanitizeHeaderValue_spaces:
  "(\<forall>c \<in> set (sanitizeHeaderValue v). \<not> isControl c \<and> \<not> isCrLf c) \<and>
   sanitizeHeaderValue v =
     sanitizeHeaderValue
       (Some (map (\<lambda>c. if isControl c \<and> \<not> isCrLf c then 0x20 else c) (strOr v []))) \<and>
   ((\<forall>c \<in> set (strOr v []). \<not> isCrLf c) \<longrightarrow>
      sanitizeHeaderValue v =
        trim (map (\<lambda>c. if isControl c \<and> \<not> isCrLf c then 0x20 else c) (strOr v [])))"
proof -
  let ?g = "\<lambda>c. if isControl c \<and> \<not> isCrLf c then 0x20 else c"
  let ?f = "\<lambda>c. if isControl c then 0x20 else c"
  have fg: "?f (?g c) = ?f c" for c :: cunit
    by (simp add: isControl_def)
  have 1: "\<forall>c \<in> set (sanitizeHeaderValue v). \<not> isControl c \<and> \<not> isCrLf c"
    using sanitizeHeaderValue_no_control isCrLf_isControl by blast
  have "map ?f (strOr (Some (map ?g (strOr v []))) []) = map ?f (strOr v [])"
    using fg by (simp add: strOr_def)
  then have 2: "sanitizeHeaderValue v = sanitizeHeaderValue (Some (map ?g (strOr v [])))"
    by (simp only: sanitizeHeaderValue_map)
  have 3: "(\<forall>c \<in> set (strOr v []). \<not> isCrLf c) \<longrightarrow>
           sanitizeHeaderValue v = trim (map ?g (strOr v []))"
  proof
    assume "\<forall>c \<in> set (strOr v []). \<not> isCrLf c"
    then have "map ?g (strOr v []) = map ?f (strOr v [])" by simp
    then show "sanitizeHeaderValue v = trim (map ?g (strOr v []))"
      by (simp only: sanitizeHeaderValue_map)
  qed
  show ?thesis using 1 2 3 by blast
qed

theorem sanitizeHeaderValue_spaces_witness:
  "list_all (\<lambda>c. \<not> isCrLf c) (strOr (Some (js ''a'' @ [0x01, 0x02] @ js ''b '')) []) \<and>
   sanitizeHeaderValue (Some (js ''a'' @ [0x01, 0x02] @ js ''b '')) = js ''a  b'' \<and>
   sanitizeHeaderValue (Some (js ''a'' @ [0x01, 0x02] @ js ''b '')) =
     sanitizeHeaderValue (Some (js ''a  b '')) \<and>
   sanitizeHeaderValue (Some (js ''a'' @ [0x01] @ CRLF @ js ''b'')) =
     sanitizeHeaderValue (Some (js ''a '' @ CRLF @ js ''b'')) \<and>
   0x20 \<in> set (sanitizeHeaderValue (Some (js ''a'' @ [0x01, 0x02] @ js ''b ''))) \<and>
   \<not> isControl 0x20 \<and> \<not> isCrLf 0x20"
proof -
  let ?g = "\<lambda>c. if isControl c \<and> \<not> isCrLf c then 0x20 else c"
  have h: "\<forall>c \<in> set (strOr (Some (js ''a'' @ [0x01, 0x02] @ js ''b '')) []). \<not> isCrLf c"
    by (simp add: strOr_def js_def isCrLf_def)
  have m1: "map ?g (strOr (Some (js ''a'' @ [0x01, 0x02] @ js ''b '')) []) = js ''a  b ''"
    by (simp add: strOr_def js_def isControl_def isCrLf_def)
  have m2: "map ?g (strOr (Some (js ''a'' @ [0x01] @ CRLF @ js ''b'')) []) = js ''a '' @ CRLF @ js ''b''"
    by (simp add: strOr_def js_def isControl_def isCrLf_def CRLF_def)
  have e: "trim (js ''a  b '') = js ''a  b''"
    by (simp add: js_def trim_def isJsSpace_def)
  have r: "sanitizeHeaderValue (Some (js ''a'' @ [0x01, 0x02] @ js ''b '')) = js ''a  b''"
    using h sanitizeHeaderValue_spaces[of "Some (js ''a'' @ [0x01, 0x02] @ js ''b '')"]
    unfolding m1 e by blast
  have r1: "sanitizeHeaderValue (Some (js ''a'' @ [0x01, 0x02] @ js ''b '')) =
            sanitizeHeaderValue (Some (js ''a  b ''))"
    using sanitizeHeaderValue_spaces[of "Some (js ''a'' @ [0x01, 0x02] @ js ''b '')"]
    unfolding m1 by blast
  have r2: "sanitizeHeaderValue (Some (js ''a'' @ [0x01] @ CRLF @ js ''b'')) =
            sanitizeHeaderValue (Some (js ''a '' @ CRLF @ js ''b''))"
    using sanitizeHeaderValue_spaces[of "Some (js ''a'' @ [0x01] @ CRLF @ js ''b'')"]
    unfolding m2 by blast
  have m: "0x20 \<in> set (sanitizeHeaderValue (Some (js ''a'' @ [0x01, 0x02] @ js ''b '')))"
    unfolding r by (simp add: js_def)
  have l: "list_all (\<lambda>c. \<not> isCrLf c) (strOr (Some (js ''a'' @ [0x01, 0x02] @ js ''b '')) [])"
    using h by (simp add: list_all_iff)
  have n: "\<not> isControl 0x20" "\<not> isCrLf 0x20"
    by (simp_all add: isControl_def isCrLf_def)
  show ?thesis using l r r1 r2 m n by blast
qed

text \<open>
  C8 as stated fails: a run of two control characters becomes two spaces, not one.
\<close>

theorem sanitizeHeaderValue_run_counterexample:
  "sanitizeHeaderValue (Some (js ''a'' @ [0x01, 0x02] @ js ''b'')) = js ''a  b'' \<and>
   sanitizeHeaderValue (Some (js ''a'' @ [0x01, 0x02] @ js ''b'')) \<noteq> js ''a b''"
  by (simp add: sanitizeHeaderValue_map strOr_def js_def trim_def isControl_def isJsSpace_def)

text \<open>
  C4. When the recorded format is \<open>eml\<close> and a raw buffer is present,
  \<open>buildEmlDownload\<close> does not serialize the message: the data URL is the media type
  \<open>message/rfc822\<close> followed by the base64 encoding of the buffer, which decodes to
  the buffer's bytes, whatever the other fields hold.
\<close>

theorem buildEmlDownload_passthrough:
  assumes "fileType m = Some (js ''eml'')" and "rawBuffer m = Some buf"
  shows "buildEmlDownload env (Some m) =
           Inr (Some \<lparr>dl_fileName = deriveEmlFileName m,
                      dataUrl = js ''data:message/rfc822;base64,'' @ b64enc buf\<rparr>) \<and>
         b64dec (b64enc buf) = Some buf"
  using assms
  by (simp add: buildEmlDownload_def Let_def arrayBufferToBase64_def base64EncodeBytes_eq
      b64dec_b64enc)

theorem buildEmlDownload_passthrough_witness:
  "fileType (emptyMessage\<lparr>subject := Some (js ''Re: x''), fileType := Some (js ''eml''),
                          rawBuffer := Some [0x48, 0x69]\<rparr>) = Some (js ''eml'') \<and>
   rawBuffer (emptyMessage\<lparr>subject := Some (js ''Re: x''), fileType := Some (js ''eml''),
                           rawBuffer := Some [0x48, 0x69]\<rparr>) = Some [0x48, 0x69] \<and>
   buildEmlDownload noEntropy
     (Some (emptyMessage\<lparr>subject := Some (js ''Re: x''), fileType := Some (js ''eml''),
                          rawBuffer := Some [0x48, 0x69]\<rparr>)) =
     Inr (Some \<lparr>dl_fileName = js ''Re_ x.eml'',
                dataUrl = js ''data:message/rfc822;base64,SGk=''\<rparr>) \<and>
   b64dec (js ''SGk='') = Some [0x48, 0x69]"
proof -
  let ?m = "emptyMessage\<lparr>subject := Some (js ''Re: x''), fileType := Some (js ''eml''),
                          rawBuffer := Some [0x48, 0x69]\<rparr>"
  have f: "fileType ?m = Some (js ''eml'')" and r: "rawBuffer ?m = Some [0x48, 0x69]"
    by (simp_all add: emptyMessage_def)
  have n: "deriveEmlFileName ?m = js ''Re_ x.eml''"
    by (simp add: deriveEmlFileName_def emptyMessage_def Let_def strOr_def trim_def js_def
        endsWithCI_def dropExt_def lowerAscii_def sanitizeFilename_def sanitizeCore_def
        replaceClass_def isJsSpace_def isControl_def isIllegalFs_def isSlash_def isAsciiLetter_def)
  have e: "b64enc [0x48, 0x69] = js ''SGk=''"
    by (simp add: b64chr_def js_def)
  have p: "js ''data:message/rfc822;base64,'' @ js ''SGk='' = js ''data:message/rfc822;base64,SGk=''"
    by (simp add: js_def)
  show ?thesis
    using buildEmlDownload_passthrough[OF f r, of noEntropy] f r
    unfolding n e p by simp
qed

text \<open>
  C10, as the code has it. For an attachment with a payload whose MIME tag holds no CR and
  no LF, the header lines of the part are the content type, the transfer encoding, a
  \<open>Content-ID\<close> line exactly when \<open>contentId\<close> is present and its sanitized form is
  not empty, and the disposition, which is \<open>inline\<close> exactly when the raw
  \<open>contentId\<close> is present and \<open>attachment\<close> otherwise. So an attachment whose
  \<open>contentId\<close> is present but sanitizes to the empty string has the disposition
  \<open>inline\<close> and no \<open>Content-ID\<close> header.
\<close>

theorem attachment_disposition:
  assumes "extractBase64 (strOr (contentBase64 a) []) \<noteq> []"
    and "lineSafe (strOr (attachMimeTag a) [])"
  shows "\<exists>p. buildAttachmentPart a = Some p \<and>
     partHeaders p =
       [js ''Content-Type: '' @ strOr (attachMimeTag a) (js ''application/octet-stream'') @
          js ''; name='' @ [0x22] @
          sanitizeFilename (Some (strOr (att_fileName a) (js ''attachment''))) @ [0x22],
        js ''Content-Transfer-Encoding: base64''] @
       (if strOr (contentId a) [] \<noteq> [] \<and>
           replaceClass (\<lambda>c. c = 0x3C \<or> c = 0x3E) [] (sanitizeHeaderValue (contentId a)) \<noteq> []
        then [js ''Content-ID: <'' @
                replaceClass (\<lambda>c. c = 0x3C \<or> c = 0x3E) [] (sanitizeHeaderValue (contentId a)) @
                js ''>'']
        else []) @
       [js ''Content-Disposition: '' @
          (if strOr (contentId a) [] \<noteq> [] then js ''inline'' else js ''attachment'') @
          js ''; filename='' @ [0x22] @
          sanitizeFilename (Some (strOr (att_fileName a) (js ''attachment''))) @ [0x22]] \<and>
     (strOr (contentId a) [] \<noteq> [] \<and>
      replaceClass (\<lambda>c. c = 0x3C \<or> c = 0x3E) [] (sanitizeHeaderValue (contentId a)) = [] \<longrightarrow>
        \<not> list_ex isContentIdHeader (partHeaders p) \<and>
        js ''Content-Disposition: '' @ js ''inline'' @ js ''; filename='' @ [0x22] @
          sanitizeFilename (Some (strOr (att_fileName a) (js ''attachment''))) @ [0x22]
        \<in> set (partHeaders p))"
proof -
  define mime where "mime = strOr (attachMimeTag a) (js ''application/octet-stream'')"
  define fname where "fname = sanitizeFilename (Some (strOr (att_fileName a) (js ''attachment'')))"
  define cid where "cid = replaceClass (\<lambda>c. c = 0x3C \<or> c = 0x3E) [] (sanitizeHeaderValue (contentId a))"
  define hasId where "hasId \<longleftrightarrow> strOr (contentId a) [] \<noteq> []"
  define ct where "ct = js ''Content-Type: '' @ mime @ js ''; name='' @ [0x22] @ fname @ [0x22]"
  define cd where "cd = js ''Content-Disposition: '' @ (if hasId then js ''inline'' else js ''attachment'') @
          js ''; filename='' @ [0x22] @ fname @ [0x22]"
  define idl where "idl = (if hasId \<and> cid \<noteq> [] then [js ''Content-ID: <'' @ cid @ js ''>''] else [])"
  define hs where "hs = [ct, js ''Content-Transfer-Encoding: base64''] @ idl @ [cd]"
  define w where "w = wrapBase64 (extractBase64 (strOr (contentBase64 a) []))"
  have p: "buildAttachmentPart a = Some (hs @ [] # [w])"
    using assms(1)
    by (simp add: buildAttachmentPart_def Let_def hs_def ct_def cd_def idl_def w_def mime_def
        fname_def cid_def hasId_def)
  have lm: "lineSafe mime"
    using assms(2) by (simp add: mime_def lineSafe_strOr lineSafe_js_body)
  have lf: "lineSafe fname" by (simp add: fname_def)
  have lc: "lineSafe cid" by (simp add: cid_def lineSafe_replaceClass)
  have s1: "ct \<noteq> [] \<and> lineSafe ct"
    using lm lf by (simp add: ct_def lineSafe_js_body, (simp add: js_def)?)
  have s2: "js ''Content-Transfer-Encoding: base64'' \<noteq> [] \<and> lineSafe (js ''Content-Transfer-Encoding: base64'')"
    by (simp add: lineSafe_js_body, (simp add: js_def)?)
  have s3: "\<forall>l \<in> set idl. l \<noteq> [] \<and> lineSafe l"
    using lc by (simp add: idl_def lineSafe_js_body lineSafe_lit, (simp add: js_def)?)
  have s4: "cd \<noteq> [] \<and> lineSafe cd"
    using lf by (simp add: cd_def lineSafe_js_body, (simp add: js_def)?)
  have "\<forall>h \<in> set hs. h \<noteq> [] \<and> lineSafe h"
    using s1 s2 s3 s4 by (simp add: hs_def ball_Un)
  then have ph: "partHeaders (hs @ [] # [w]) = hs" by (rule partHeaders_lines)
  have n: "hasId \<and> cid = [] \<longrightarrow> \<not> list_ex isContentIdHeader (partHeaders (hs @ [] # [w])) \<and>
        js ''Content-Disposition: '' @ js ''inline'' @ js ''; filename='' @ [0x22] @ fname @ [0x22]
        \<in> set (partHeaders (hs @ [] # [w]))"
    unfolding ph by (simp add: hs_def idl_def ct_def cd_def content_id_header_names)
  have final: "\<exists>p. buildAttachmentPart a = Some p \<and> partHeaders p = hs \<and>
     (hasId \<and> cid = [] \<longrightarrow>
        \<not> list_ex isContentIdHeader (partHeaders p) \<and>
        js ''Content-Disposition: '' @ js ''inline'' @ js ''; filename='' @ [0x22] @ fname @ [0x22]
        \<in> set (partHeaders p))"
    using p ph n by blast
  show ?thesis
    using final unfolding hs_def idl_def ct_def cd_def mime_def fname_def cid_def hasId_def .
qed

theorem attachment_disposition_witness:
  "extractBase64 (strOr (contentBase64
      \<lparr>attachMimeTag = None, att_fileName = Some (js ''x.png''),
       contentBase64 = Some (js ''data:image/png;base64,AAAA''), contentId = Some (js ''<>'')\<rparr>) []) =
     js ''AAAA'' \<and>
   lineSafe (strOr (attachMimeTag
      \<lparr>attachMimeTag = None, att_fileName = Some (js ''x.png''),
       contentBase64 = Some (js ''data:image/png;base64,AAAA''), contentId = Some (js ''<>'')\<rparr>) []) \<and>
   replaceClass (\<lambda>c. c = 0x3C \<or> c = 0x3E) [] (sanitizeHeaderValue (Some (js ''<>''))) = [] \<and>
   partHeaders (the (buildAttachmentPart
      \<lparr>attachMimeTag = None, att_fileName = Some (js ''x.png''),
       contentBase64 = Some (js ''data:image/png;base64,AAAA''), contentId = Some (js ''<>'')\<rparr>)) =
     [js ''Content-Type: application/octet-stream; name='' @ [0x22] @ js ''x.png'' @ [0x22],
      js ''Content-Transfer-Encoding: base64'',
      js ''Content-Disposition: inline; filename='' @ [0x22] @ js ''x.png'' @ [0x22]] \<and>
   \<not> list_ex isContentIdHeader (partHeaders (the (buildAttachmentPart
      \<lparr>attachMimeTag = None, att_fileName = Some (js ''x.png''),
       contentBase64 = Some (js ''data:image/png;base64,AAAA''), contentId = Some (js ''<>'')\<rparr>))) \<and>
   partHeaders (the (buildAttachmentPart
      \<lparr>attachMimeTag = None, att_fileName = Some (js ''x.png''),
       contentBase64 = Some (js ''data:image/png;base64,AAAA''), contentId = None\<rparr>)) =
     [js ''Content-Type: application/octet-stream; name='' @ [0x22] @ js ''x.png'' @ [0x22],
      js ''Content-Transfer-Encoding: base64'',
      js ''Content-Disposition: attachment; filename='' @ [0x22] @ js ''x.png'' @ [0x22]] \<and>
   partHeaders (the (buildAttachmentPart
      \<lparr>attachMimeTag = None, att_fileName = Some (js ''x.png''),
       contentBase64 = Some (js ''data:image/png;base64,AAAA''), contentId = Some (js ''<i1>'')\<rparr>)) =
     [js ''Content-Type: application/octet-stream; name='' @ [0x22] @ js ''x.png'' @ [0x22],
      js ''Content-Transfer-Encoding: base64'',
      js ''Content-ID: <i1>'',
      js ''Content-Disposition: inline; filename='' @ [0x22] @ js ''x.png'' @ [0x22]]"
proof -
  let ?a = "\<lambda>cid. \<lparr>attachMimeTag = None, att_fileName = Some (js ''x.png''),
       contentBase64 = Some (js ''data:image/png;base64,AAAA''), contentId = cid\<rparr>"
  have e: "extractBase64 (strOr (contentBase64 (?a cid)) []) = js ''AAAA''" for cid
    by (simp add: extractBase64_def strOr_def js_def)
  have ne: "extractBase64 (strOr (contentBase64 (?a cid)) []) \<noteq> []" for cid
    unfolding e by (simp add: js_def)
  have l: "lineSafe (strOr (attachMimeTag (?a cid)) [])" for cid
    by (simp add: strOr_def)
  have m: "strOr (attachMimeTag (?a cid)) (js ''application/octet-stream'') = js ''application/octet-stream''" for cid
    by (simp add: strOr_def)
  have f: "sanitizeFilename (Some (strOr (att_fileName (?a cid)) (js ''attachment''))) = js ''x.png''" for cid
    by (simp add: sanitizeFilename_def sanitizeCore_def js_def strOr_def trim_def replaceClass_def
        isJsSpace_def isControl_def isIllegalFs_def isSlash_def isAsciiLetter_def)
  have c1: "replaceClass (\<lambda>c. c = 0x3C \<or> c = 0x3E) [] (sanitizeHeaderValue (Some (js ''<>''))) = []"
    by (simp add: sanitizeHeaderValue_map strOr_def js_def trim_def isControl_def isJsSpace_def
        replaceClass_def)
  have c2: "replaceClass (\<lambda>c. c = 0x3C \<or> c = 0x3E) [] (sanitizeHeaderValue (Some (js ''<i1>''))) = js ''i1''"
    by (simp add: sanitizeHeaderValue_map strOr_def js_def trim_def isControl_def isJsSpace_def
        replaceClass_def)
  have c3: "replaceClass (\<lambda>c. c = 0x3C \<or> c = 0x3E) [] (sanitizeHeaderValue None) = []"
    by (simp add: sanitizeHeaderValue_map strOr_def trim_def replaceClass_def)
  have c1n: "replaceClass (\<lambda>c. c = 0x3C \<or> c = 0x3E) [] (sanitizeHeaderValue (Some [0x3C, 0x3E])) = []"
    using c1 by (simp add: js_def)
  have c2n: "replaceClass (\<lambda>c. c = 0x3C \<or> c = 0x3E) [] (sanitizeHeaderValue (Some [0x3C, 0x69, 0x31, 0x3E])) =
             [0x69, 0x31]"
    using c2 by (simp add: js_def)
  have t1: "partHeaders (the (buildAttachmentPart (?a (Some (js ''<>''))))) =
     [js ''Content-Type: application/octet-stream; name='' @ [0x22] @ js ''x.png'' @ [0x22],
      js ''Content-Transfer-Encoding: base64'',
      js ''Content-Disposition: inline; filename='' @ [0x22] @ js ''x.png'' @ [0x22]] \<and>
    \<not> list_ex isContentIdHeader (partHeaders (the (buildAttachmentPart (?a (Some (js ''<>''))))))"
    using attachment_disposition[OF ne l, of "Some (js ''<>'')"]
    unfolding m f by (auto simp: c1n strOr_def js_def)
  have t2: "partHeaders (the (buildAttachmentPart (?a None))) =
     [js ''Content-Type: application/octet-stream; name='' @ [0x22] @ js ''x.png'' @ [0x22],
      js ''Content-Transfer-Encoding: base64'',
      js ''Content-Disposition: attachment; filename='' @ [0x22] @ js ''x.png'' @ [0x22]]"
    using attachment_disposition[OF ne l, of None]
    unfolding m f by (auto simp: c3 strOr_def js_def)
  have t3: "partHeaders (the (buildAttachmentPart (?a (Some (js ''<i1>''))))) =
     [js ''Content-Type: application/octet-stream; name='' @ [0x22] @ js ''x.png'' @ [0x22],
      js ''Content-Transfer-Encoding: base64'',
      js ''Content-ID: <i1>'',
      js ''Content-Disposition: inline; filename='' @ [0x22] @ js ''x.png'' @ [0x22]]"
    using attachment_disposition[OF ne l, of "Some (js ''<i1>'')"]
    unfolding m f by (auto simp: c2n strOr_def js_def)
  show ?thesis
    using e[of "Some (js ''<>'')"] l[of "Some (js ''<>'')"] c1 t1 t2 t3 by blast
qed

text \<open>
  C10 as stated fails when the MIME tag carries a line break: the tag is written into the
  \<open>Content-Type\<close> line as it is, so a tag that holds CRLF and \<open>Content-ID:\<close> puts a
  \<open>Content-ID\<close> header into the part although \<open>contentId\<close> sanitizes to the empty
  string.
\<close>

theorem attachment_mime_tag_counterexample:
  "strOr (contentId
      \<lparr>attachMimeTag = Some (js ''text/plain'' @ CRLF @ js ''Content-ID: <evil@x>''),
       att_fileName = None, contentBase64 = Some (js ''AAAA''),
       contentId = Some (js ''<>'')\<rparr>) [] \<noteq> [] \<and>
   replaceClass (\<lambda>c. c = 0x3C \<or> c = 0x3E) [] (sanitizeHeaderValue (Some (js ''<>''))) = [] \<and>
   buildAttachmentPart
      \<lparr>attachMimeTag = Some (js ''text/plain'' @ CRLF @ js ''Content-ID: <evil@x>''),
       att_fileName = None, contentBase64 = Some (js ''AAAA''),
       contentId = Some (js ''<>'')\<rparr> \<noteq> None \<and>
   partHeaders (the (buildAttachmentPart
      \<lparr>attachMimeTag = Some (js ''text/plain'' @ CRLF @ js ''Content-ID: <evil@x>''),
       att_fileName = None, contentBase64 = Some (js ''AAAA''),
       contentId = Some (js ''<>'')\<rparr>)) =
     [js ''Content-Type: text/plain'',
      js ''Content-ID: <evil@x>; name='' @ [0x22] @ js ''attachment'' @ [0x22],
      js ''Content-Transfer-Encoding: base64'',
      js ''Content-Disposition: inline; filename='' @ [0x22] @ js ''attachment'' @ [0x22]] \<and>
   list_ex isContentIdHeader (partHeaders (the (buildAttachmentPart
      \<lparr>attachMimeTag = Some (js ''text/plain'' @ CRLF @ js ''Content-ID: <evil@x>''),
       att_fileName = None, contentBase64 = Some (js ''AAAA''),
       contentId = Some (js ''<>'')\<rparr>)))"
proof -
  let ?a = "\<lparr>attachMimeTag = Some (js ''text/plain'' @ CRLF @ js ''Content-ID: <evil@x>''),
       att_fileName = None, contentBase64 = Some (js ''AAAA''),
       contentId = Some (js ''<>'')\<rparr>"
  have c1: "replaceClass (\<lambda>c. c = 0x3C \<or> c = 0x3E) [] (sanitizeHeaderValue (Some (js ''<>''))) = []"
    by (simp add: sanitizeHeaderValue_map strOr_def js_def trim_def isControl_def isJsSpace_def
        replaceClass_def)
  have f: "sanitizeFilename (Some (js ''attachment'')) = js ''attachment''"
    by (simp add: sanitizeFilename_def sanitizeCore_def js_def strOr_def trim_def replaceClass_def
        isJsSpace_def isControl_def isIllegalFs_def isSlash_def isAsciiLetter_def)
  have w: "wrapBase64 (js ''AAAA'') = js ''AAAA''"
    by (simp add: wrapBase64_def wrapLines.simps js_def slice_def BASE64_LINE_LENGTH_def)
  have e: "extractBase64 (js ''AAAA'') = js ''AAAA''"
    by (simp add: extractBase64_def js_def)
  have ne: "js ''AAAA'' \<noteq> []" "js ''<>'' \<noteq> []" by (simp_all add: js_def)
  have mt: "strOr (Some (js ''text/plain'' @ CRLF @ js ''Content-ID: <evil@x>''))
              (js ''application/octet-stream'') =
            js ''text/plain'' @ CRLF @ js ''Content-ID: <evil@x>''"
    by (simp add: strOr_def js_def)
  have fa: "strOr None (js ''attachment'') = js ''attachment''"
    by (simp add: strOr_def)
  have p: "buildAttachmentPart ?a =
     Some [js ''Content-Type: '' @ (js ''text/plain'' @ CRLF @ js ''Content-ID: <evil@x>'') @
             js ''; name='' @ [0x22] @ js ''attachment'' @ [0x22],
           js ''Content-Transfer-Encoding: base64'',
           js ''Content-Disposition: '' @ js ''inline'' @ js ''; filename='' @ [0x22] @
             js ''attachment'' @ [0x22],
           [],
           js ''AAAA'']"
    using ne by (simp add: buildAttachmentPart_def Let_def mt fa strOr_Some_Nil c1 f w e)
  have h: "partHeaders [js ''Content-Type: '' @ (js ''text/plain'' @ CRLF @ js ''Content-ID: <evil@x>'') @
             js ''; name='' @ [0x22] @ js ''attachment'' @ [0x22],
           js ''Content-Transfer-Encoding: base64'',
           js ''Content-Disposition: '' @ js ''inline'' @ js ''; filename='' @ [0x22] @
             js ''attachment'' @ [0x22],
           [],
           js ''AAAA''] =
     [js ''Content-Type: text/plain'',
      js ''Content-ID: <evil@x>; name='' @ [0x22] @ js ''attachment'' @ [0x22],
      js ''Content-Transfer-Encoding: base64'',
      js ''Content-Disposition: inline; filename='' @ [0x22] @ js ''attachment'' @ [0x22]]"
    by (simp add: partHeaders_def js_def CRLF_def)
  have i: "isContentIdHeader (js ''Content-ID: <evil@x>; name='' @ [0x22] @ js ''attachment'' @ [0x22])"
    by (simp add: isContentIdHeader_def js_def lowerAscii_def)
  show ?thesis
    unfolding p option.sel h using c1 ne i by (simp add: strOr_Some_Nil)
qed

text \<open>
  C7, as the code has it. When the sanitized header text is pure ASCII,
  \<open>encodeHeaderWord\<close> returns it unchanged. When it has a non-ASCII code unit, the
  result is \<open>=?UTF-8?B?\<close>, base64 text, \<open>?=\<close>; the base64 text decodes to the
  UTF-8 bytes of the sanitized text, and when the sanitized text is well-formed UTF-16
  (no unpaired surrogate) decoding those bytes as UTF-8 gives the sanitized text back.
\<close>

theorem encodeHeaderWord_cases:
  "(\<not> hasNonAscii (sanitizeHeaderValue v) \<longrightarrow>
      encodeHeaderWord v = Inr (sanitizeHeaderValue v)) \<and>
   (hasNonAscii (sanitizeHeaderValue v) \<longrightarrow>
      (\<exists>b. encodeHeaderWord v = Inr (js ''=?UTF-8?B?'' @ b @ js ''?='') \<and>
           list_all isB64Char b \<and>
           b64dec b = Some (textEncode (sanitizeHeaderValue v)) \<and>
           (wellFormed (sanitizeHeaderValue v) \<longrightarrow>
              Option.bind (b64dec b) textDecode = Some (sanitizeHeaderValue v))))"
proof (intro conjI impI)
  assume "\<not> hasNonAscii (sanitizeHeaderValue v)"
  then show "encodeHeaderWord v = Inr (sanitizeHeaderValue v)"
    by (simp add: encodeHeaderWord_def Let_def)
next
  assume n: "hasNonAscii (sanitizeHeaderValue v)"
  let ?c = "sanitizeHeaderValue v"
  have ne: "?c \<noteq> []" using n by (auto simp: hasNonAscii_def)
  have 1: "encodeHeaderWord v = Inr (js ''=?UTF-8?B?'' @ b64enc (textEncode ?c) @ js ''?='')"
    using n ne by (simp add: encodeHeaderWord_def Let_def base64EncodeUtf8_eq)
  have 2: "list_all isB64Char (b64enc (textEncode ?c))"
    using b64enc_chars by (simp add: list_all_iff)
  have 3: "b64dec (b64enc (textEncode ?c)) = Some (textEncode ?c)"
    by (rule b64dec_b64enc)
  have 4: "wellFormed ?c \<longrightarrow> Option.bind (b64dec (b64enc (textEncode ?c))) textDecode = Some ?c"
    by (simp add: 3 textDecode_textEncode)
  show "\<exists>b. encodeHeaderWord v = Inr (js ''=?UTF-8?B?'' @ b @ js ''?='') \<and>
           list_all isB64Char b \<and>
           b64dec b = Some (textEncode (sanitizeHeaderValue v)) \<and>
           (wellFormed (sanitizeHeaderValue v) \<longrightarrow>
              Option.bind (b64dec b) textDecode = Some (sanitizeHeaderValue v))"
    using 1 2 3 4 by blast
qed

theorem encodeHeaderWord_cases_witness:
  "\<not> hasNonAscii (sanitizeHeaderValue (Some (js '' Hello ''))) \<and>
   encodeHeaderWord (Some (js '' Hello '')) = Inr (js ''Hello'') \<and>
   hasNonAscii (sanitizeHeaderValue (Some [0x63, 0x61, 0x66, 0xE9])) \<and>
   wellFormed (sanitizeHeaderValue (Some [0x63, 0x61, 0x66, 0xE9])) \<and>
   encodeHeaderWord (Some [0x63, 0x61, 0x66, 0xE9]) = Inr (js ''=?UTF-8?B?Y2Fmw6k=?='') \<and>
   Option.bind (b64dec (js ''Y2Fmw6k='')) textDecode = Some [0x63, 0x61, 0x66, 0xE9]"
proof -
  have s1: "sanitizeHeaderValue (Some (js '' Hello '')) = js ''Hello''"
    by (simp add: sanitizeHeaderValue_map strOr_def js_def trim_def isControl_def isJsSpace_def)
  have a1: "\<not> hasNonAscii (sanitizeHeaderValue (Some (js '' Hello '')))"
    unfolding s1 by (simp add: hasNonAscii_def js_def)
  have s2: "sanitizeHeaderValue (Some [0x63, 0x61, 0x66, 0xE9]) = [0x63, 0x61, 0x66, 0xE9]"
    by (simp add: sanitizeHeaderValue_map strOr_def trim_def isControl_def isJsSpace_def)
  have a2: "hasNonAscii (sanitizeHeaderValue (Some [0x63, 0x61, 0x66, 0xE9]))"
    unfolding s2 by (simp add: hasNonAscii_def)
  have w2: "wellFormed (sanitizeHeaderValue (Some [0x63, 0x61, 0x66, 0xE9]))"
    unfolding s2 by (simp add: isHighSurrogate_def isLowSurrogate_def)
  have t: "textEncode [0x63, 0x61, 0x66, 0xE9] = [0x63, 0x61, 0x66, 0xC3, 0xA9]"
    by (simp add: textEncode_def scalarOf_def utf8Bytes_def isHighSurrogate_def isLowSurrogate_def)
  have e: "b64enc [0x63, 0x61, 0x66, 0xC3, 0xA9] = js ''Y2Fmw6k=''"
    by (simp add: b64chr_def js_def)
  have d: "b64dec (js ''Y2Fmw6k='') = Some [0x63, 0x61, 0x66, 0xC3, 0xA9]"
    unfolding e[symmetric] by (rule b64dec_b64enc)
  have j: "js ''=?UTF-8?B?'' @ js ''Y2Fmw6k='' @ js ''?='' = js ''=?UTF-8?B?Y2Fmw6k=?=''"
    by (simp add: js_def)
  have 1: "encodeHeaderWord (Some (js '' Hello '')) = Inr (js ''Hello'')"
    using encodeHeaderWord_cases[of "Some (js '' Hello '')"] a1 unfolding s1 by simp
  obtain b where b: "encodeHeaderWord (Some [0x63, 0x61, 0x66, 0xE9]) = Inr (js ''=?UTF-8?B?'' @ b @ js ''?='')"
    "b64dec b = Some (textEncode [0x63, 0x61, 0x66, 0xE9])"
    "Option.bind (b64dec b) textDecode = Some [0x63, 0x61, 0x66, 0xE9]"
    using encodeHeaderWord_cases[of "Some [0x63, 0x61, 0x66, 0xE9]"] a2 w2 unfolding s2 by auto
  have eq: "encodeHeaderWord (Some [0x63, 0x61, 0x66, 0xE9]) = Inr (js ''=?UTF-8?B?Y2Fmw6k=?='')"
    unfolding j[symmetric] e[symmetric] t[symmetric]
    using a2 by (simp add: encodeHeaderWord_def Let_def base64EncodeUtf8_eq s2 hasNonAscii_def)
  have r: "Option.bind (b64dec (js ''Y2Fmw6k='')) textDecode = Some [0x63, 0x61, 0x66, 0xE9]"
    using b(3) b(1) eq by (simp add: js_def)
  show ?thesis using a1 1 a2 w2 eq r by blast
qed

text \<open>
  C7 as stated fails on a lone surrogate: the encoder writes U+FFFD for it, so the
  decoded text is not the sanitized original.
\<close>

theorem encodeHeaderWord_surrogate_counterexample:
  "sanitizeHeaderValue (Some [0xD800]) = [0xD800] \<and>
   hasNonAscii (sanitizeHeaderValue (Some [0xD800])) \<and>
   encodeHeaderWord (Some [0xD800]) = Inr (js ''=?UTF-8?B?'' @ js ''77+9'' @ js ''?='') \<and>
   Option.bind (b64dec (js ''77+9'')) textDecode = Some [0xFFFD] \<and>
   Option.bind (b64dec (js ''77+9'')) textDecode \<noteq> Some (sanitizeHeaderValue (Some [0xD800]))"
proof -
  have s: "sanitizeHeaderValue (Some [0xD800]) = [0xD800]"
    by (simp add: sanitizeHeaderValue_map strOr_def trim_def isControl_def isJsSpace_def)
  have a: "hasNonAscii [0xD800]" by (simp add: hasNonAscii_def)
  have t: "textEncode [0xD800] = [0xEF, 0xBF, 0xBD]"
    by (simp add: textEncode_def scalarOf_def utf8Bytes_def isHighSurrogate_def isLowSurrogate_def)
  have e: "b64enc [0xEF, 0xBF, 0xBD] = js ''77+9''"
    by (simp add: b64chr_def js_def)
  have d: "b64dec (js ''77+9'') = Some [0xEF, 0xBF, 0xBD]"
    unfolding e[symmetric] by (rule b64dec_b64enc)
  have u: "textDecode [0xEF, 0xBF, 0xBD] = Some [0xFFFD]"
    by (simp add: textDecode_def isCont_def isScalar_def utf16Units_def)
  have w: "encodeHeaderWord (Some [0xD800]) = Inr (js ''=?UTF-8?B?'' @ js ''77+9'' @ js ''?='')"
    unfolding encodeHeaderWord_def Let_def s base64EncodeUtf8_eq t e using a by simp
  show ?thesis unfolding s using a w by (simp add: d u)
qed

text \<open>
  C3. A message with no attachments whose plain and HTML bodies are both non-empty after
  trimming is assembled as \<open>multipart/alternative\<close>: the last header line is the only
  \<open>Content-Type\<close> header and declares it, and the body is the boundary line, the
  \<open>text/plain\<close> part, the boundary line, the \<open>text/html\<close> part and the closing
  boundary. Each part's payload is base64 in lines of at most 76 characters that decode
  to the UTF-8 bytes of the body with CRLF line endings.
\<close>

theorem alternative_message:
  assumes "attachmentsOf m = []"
    and "trim (strOr (bodyContent m) []) \<noteq> []"
    and "trim (strOr (bodyContentHTML m) []) \<noteq> []"
  shows "\<exists>hs plain html.
     buildEmlFromMessage env m =
       Inr (joinWith CRLF
              (hs @ [js ''Content-Type: multipart/alternative; boundary='' @ [0x22] @
                       makeBoundary env 0 (js ''alt'') @ [0x22]]) @
            CRLF @ CRLF @
            joinWith CRLF
              [js ''--'' @ makeBoundary env 0 (js ''alt''),
               js ''Content-Type: '' @ js ''text/plain'' @ js ''; charset='' @ [0x22] @ js ''utf-8'' @ [0x22],
               js ''Content-Transfer-Encoding: base64'',
               [],
               plain,
               js ''--'' @ makeBoundary env 0 (js ''alt''),
               js ''Content-Type: '' @ js ''text/html'' @ js ''; charset='' @ [0x22] @ js ''utf-8'' @ [0x22],
               js ''Content-Transfer-Encoding: base64'',
               [],
               html,
               js ''--'' @ makeBoundary env 0 (js ''alt'') @ js ''--'']) \<and>
     list_all headerLine hs \<and>
     base64Payload plain (textEncode (normalizeLineEndings (Some (strOr (bodyContent m) [])))) \<and>
     base64Payload html (textEncode (normalizeLineEndings (Some (strOr (bodyContentHTML m) []))))"
proof -
  obtain hs where hs: "commonHeaders env m = Inr hs" "\<forall>h \<in> set hs. headerLine h"
    using commonHeaders_ok by blast
  have t: "trim (normalizeLineEndings (Some (strOr (bodyContent m) []))) \<noteq> []"
    using assms(2) by (simp add: trim_normalizeLineEndings)
  have h: "trim (normalizeLineEndings (Some (strOr (bodyContentHTML m) []))) \<noteq> []"
    using assms(3) by (simp add: trim_normalizeLineEndings)
  let ?plain = "wrapBase64 (b64enc (textEncode (normalizeLineEndings (Some (strOr (bodyContent m) [])))))"
  let ?html = "wrapBase64 (b64enc (textEncode (normalizeLineEndings (Some (strOr (bodyContentHTML m) [])))))"
  have e: "buildEmlFromMessage env m =
       Inr (joinWith CRLF
              (hs @ [js ''Content-Type: multipart/alternative; boundary='' @ [0x22] @
                       makeBoundary env 0 (js ''alt'') @ [0x22]]) @
            CRLF @ CRLF @
            joinWith CRLF
              [js ''--'' @ makeBoundary env 0 (js ''alt''),
               js ''Content-Type: '' @ js ''text/plain'' @ js ''; charset='' @ [0x22] @ js ''utf-8'' @ [0x22],
               js ''Content-Transfer-Encoding: base64'',
               [],
               ?plain,
               js ''--'' @ makeBoundary env 0 (js ''alt''),
               js ''Content-Type: '' @ js ''text/html'' @ js ''; charset='' @ [0x22] @ js ''utf-8'' @ [0x22],
               js ''Content-Transfer-Encoding: base64'',
               [],
               ?html,
               js ''--'' @ makeBoundary env 0 (js ''alt'') @ js ''--''])"
    unfolding buildEmlFromMessage_def buildEmlLines_alternative[OF assms(1) t h hs(1)]
      normalizeLineEndings_idem
    by simp
  have "list_all headerLine hs" using hs(2) by (simp add: list_all_iff)
  then show ?thesis using e base64Payload_wrap by blast
qed

theorem alternative_message_witness:
  "attachmentsOf (emptyMessage\<lparr>bodyContent := Some (js ''Hi''),
                                bodyContentHTML := Some (js ''<b>Hi</b>'')\<rparr>) = [] \<and>
   trim (strOr (bodyContent (emptyMessage\<lparr>bodyContent := Some (js ''Hi''),
                                bodyContentHTML := Some (js ''<b>Hi</b>'')\<rparr>)) []) = js ''Hi'' \<and>
   trim (strOr (bodyContentHTML (emptyMessage\<lparr>bodyContent := Some (js ''Hi''),
                                bodyContentHTML := Some (js ''<b>Hi</b>'')\<rparr>)) []) = js ''<b>Hi</b>'' \<and>
   (\<exists>hs plain html.
     buildEmlFromMessage noEntropy (emptyMessage\<lparr>bodyContent := Some (js ''Hi''),
                                bodyContentHTML := Some (js ''<b>Hi</b>'')\<rparr>) =
       Inr (joinWith CRLF
              (hs @ [js ''Content-Type: multipart/alternative; boundary='' @ [0x22] @
                       makeBoundary noEntropy 0 (js ''alt'') @ [0x22]]) @
            CRLF @ CRLF @
            joinWith CRLF
              [js ''--'' @ makeBoundary noEntropy 0 (js ''alt''),
               js ''Content-Type: '' @ js ''text/plain'' @ js ''; charset='' @ [0x22] @ js ''utf-8'' @ [0x22],
               js ''Content-Transfer-Encoding: base64'',
               [],
               plain,
               js ''--'' @ makeBoundary noEntropy 0 (js ''alt''),
               js ''Content-Type: '' @ js ''text/html'' @ js ''; charset='' @ [0x22] @ js ''utf-8'' @ [0x22],
               js ''Content-Transfer-Encoding: base64'',
               [],
               html,
               js ''--'' @ makeBoundary noEntropy 0 (js ''alt'') @ js ''--'']) \<and>
     list_all headerLine hs \<and>
     base64Payload plain (textEncode (js ''Hi'')) \<and>
     base64Payload html (textEncode (js ''<b>Hi</b>'')))"
proof -
  let ?m = "emptyMessage\<lparr>bodyContent := Some (js ''Hi''), bodyContentHTML := Some (js ''<b>Hi</b>'')\<rparr>"
  have a: "attachmentsOf ?m = []" by (simp add: attachmentsOf_def emptyMessage_def)
  have t: "trim (strOr (bodyContent ?m) []) = js ''Hi''"
    by (simp add: emptyMessage_def strOr_def js_def trim_def isJsSpace_def)
  have h: "trim (strOr (bodyContentHTML ?m) []) = js ''<b>Hi</b>''"
    by (simp add: emptyMessage_def strOr_def js_def trim_def isJsSpace_def)
  have t': "trim (strOr (bodyContent ?m) []) \<noteq> []" unfolding t by (simp add: js_def)
  have h': "trim (strOr (bodyContentHTML ?m) []) \<noteq> []" unfolding h by (simp add: js_def)
  have nt: "normalizeLineEndings (Some (strOr (bodyContent ?m) [])) = js ''Hi''"
    by (simp add: emptyMessage_def strOr_def js_def normalizeLineEndings_def replaceClass_def)
  have nh: "normalizeLineEndings (Some (strOr (bodyContentHTML ?m) [])) = js ''<b>Hi</b>''"
    by (simp add: emptyMessage_def strOr_def js_def normalizeLineEndings_def replaceClass_def)
  show ?thesis
    using alternative_message[OF a t' h', of noEntropy] a t h
    unfolding nt nh by blast
qed



text \<open>
  C5. \<open>buildEmlDownload\<close> returns \<open>null\<close> exactly for an absent message. For every
  message, also the one with every optional field missing, it returns, without an error,
  an artifact whose file name is not empty and whose data URL is the media type
  \<open>message/rfc822\<close> followed by base64 text.
\<close>

theorem buildEmlDownload_total:
  "(buildEmlDownload env mo = Inr None \<longleftrightarrow> mo = None) \<and>
   (\<exists>a payload. buildEmlDownload env (Some m) = Inr (Some a) \<and> dl_fileName a \<noteq> [] \<and>
        dataUrl a = js ''data:message/rfc822;base64,'' @ payload \<and> list_all isB64Char payload)"
proof -
  have some: "\<exists>a payload. buildEmlDownload env (Some m) = Inr (Some a) \<and> dl_fileName a \<noteq> [] \<and>
        dataUrl a = js ''data:message/rfc822;base64,'' @ payload \<and> list_all isB64Char payload" for m
  proof (cases "fileType m = Some (js ''eml'') \<and> rawBuffer m \<noteq> None")
    case True
    then obtain buf where buf: "rawBuffer m = Some buf" by auto
    have "buildEmlDownload env (Some m) =
            Inr (Some \<lparr>dl_fileName = deriveEmlFileName m,
                       dataUrl = js ''data:message/rfc822;base64,'' @ b64enc buf\<rparr>)"
      using True buf
      by (simp add: buildEmlDownload_def Let_def arrayBufferToBase64_def base64EncodeBytes_eq)
    moreover have "list_all isB64Char (b64enc buf)"
      using b64enc_chars by (simp add: list_all_iff)
    ultimately show ?thesis using deriveEmlFileName_nonempty[of m] by simp
  next
    case False
    obtain eml where eml: "buildEmlFromMessage env m = Inr eml"
      using buildEmlFromMessage_ok[of env m] by blast
    have "buildEmlDownload env (Some m) =
            Inr (Some \<lparr>dl_fileName = deriveEmlFileName m,
                       dataUrl = js ''data:message/rfc822;base64,'' @ b64enc (textEncode eml)\<rparr>)"
      using False eml
      by (auto simp: buildEmlDownload_def Let_def base64EncodeUtf8_eq)
    moreover have "list_all isB64Char (b64enc (textEncode eml))"
      using b64enc_chars by (simp add: list_all_iff)
    ultimately show ?thesis using deriveEmlFileName_nonempty[of m] by simp
  qed
  have none: "buildEmlDownload env mo = Inr None \<longleftrightarrow> mo = None"
  proof (cases mo)
    case None
    then show ?thesis by (simp add: buildEmlDownload_def)
  next
    case (Some m')
    then show ?thesis using some[of m'] by auto
  qed
  show ?thesis using none some by blast
qed

theorem buildEmlDownload_total_witness:
  "buildEmlDownload noEntropy None = Inr None \<and>
   deriveEmlFileName emptyMessage = js ''message.eml'' \<and>
   (\<exists>a payload. buildEmlDownload noEntropy (Some emptyMessage) = Inr (Some a) \<and>
        dl_fileName a = js ''message.eml'' \<and>
        dataUrl a = js ''data:message/rfc822;base64,'' @ payload \<and> list_all isB64Char payload)"
proof -
  have n: "deriveEmlFileName emptyMessage = js ''message.eml''"
    by (simp add: deriveEmlFileName_def emptyMessage_def Let_def strOr_def trim_def js_def
        endsWithCI_def dropExt_def lowerAscii_def sanitizeFilename_def sanitizeCore_def
        replaceClass_def isJsSpace_def isControl_def isIllegalFs_def isSlash_def isAsciiLetter_def)
  have f: "buildEmlDownload noEntropy (Some emptyMessage) = Inr (Some a) \<Longrightarrow>
           dl_fileName a = deriveEmlFileName emptyMessage" for a
    by (auto simp: buildEmlDownload_def Let_def emptyMessage_def bindE_def split: sum.splits)
  have z: "buildEmlDownload noEntropy None = Inr None"
    using buildEmlDownload_total[of noEntropy None] by simp
  show ?thesis
    using buildEmlDownload_total[of noEntropy None emptyMessage] f n z by metis
qed

lemmas eval_defs = js_def CRLF_def strOr_def trim_def isJsSpace_def isControl_def replaceClass_def
  sanitizeHeaderValue_map isAsciiLetter_def isIllegalFs_def isSlash_def sanitizeCore_def
  sanitizeFilename_def normalizeLineEndings_def hasNonAscii_def encodeHeaderWord_def
  needsQuotes_def formatAddress_def normalizeRecipient_def formatAddressList_def
  getMessageDate_def orDate_def pushIf_def commonHeaders_def lowerAscii_def endsWithCI_def
  dropExt_def deriveEmlFileName_def Let_def emptyMessage_def helloMessage_def

lemma hello_headers:
  "commonHeaders env helloMessage =
     Inr [js ''Subject: Hello'', js ''From: <a@x.com>'', js ''To: <b@y.com>'', js ''MIME-Version: 1.0'']"
  by (simp add: eval_defs)


lemma hello_body:
  "normalizeLineEndings (Some (strOr (bodyContent helloMessage) [])) = js ''Hi''"
  "normalizeLineEndings (Some (strOr (bodyContentHTML helloMessage) [])) = []"
  "attachmentsOf helloMessage = []"
  "fileType helloMessage = None"
  by (simp_all add: eval_defs attachmentsOf_def)

lemma hello_payload: "wrapBase64 (b64enc (textEncode (js ''Hi''))) = js ''SGk=''"
  by (simp add: js_def textEncode_def scalarOf_def utf8Bytes_def isHighSurrogate_def
      isLowSurrogate_def b64chr_def wrapBase64_def wrapLines.simps slice_def BASE64_LINE_LENGTH_def)

lemma hello_lines:
  "buildEmlLines env helloMessage =
     Inr ([js ''Subject: Hello'', js ''From: <a@x.com>'', js ''To: <b@y.com>'', js ''MIME-Version: 1.0'',
           js ''Content-Type: text/plain; charset='' @ [0x22] @ js ''utf-8'' @ [0x22],
           js ''Content-Transfer-Encoding: base64''],
          [js ''SGk=''])"
proof -
  have t: "trim (js ''Hi'') \<noteq> []" "trim [] = []"
    by (simp_all add: js_def trim_def isJsSpace_def)
  have a: "attachments helloMessage = Some []"
    by (simp add: helloMessage_def)
  have j: "js ''Content-Type: '' @ js ''text/plain'' @ js ''; charset='' = js ''Content-Type: text/plain; charset=''"
    by (simp add: js_def)
  show ?thesis
    unfolding buildEmlLines_def hello_headers bindE_Inr Let_def hello_body a
    using t by (simp add: base64EncodeUtf8_eq hello_payload j[symmetric])
qed

lemma hello_eml:
  "buildEmlFromMessage env helloMessage =
     Inr (joinWith CRLF
            [js ''Subject: Hello'', js ''From: <a@x.com>'', js ''To: <b@y.com>'', js ''MIME-Version: 1.0'',
             js ''Content-Type: text/plain; charset='' @ [0x22] @ js ''utf-8'' @ [0x22],
             js ''Content-Transfer-Encoding: base64''] @
          CRLF @ CRLF @ js ''SGk='')"
  unfolding buildEmlFromMessage_def hello_lines bindE_Inr by simp




text \<open>
  C9, as the code has it. The assembled text is the header lines joined by CRLF, then
  CRLF CRLF, then the body. No header line is empty or holds a CR or LF and the body does
  not start with a line break, so exactly one blank line separates the header block and
  the body. When no attachment holds a CR or LF in its MIME tag or in its payload field
  (so always when there are no attachments), whatever the line endings of the body
  fields, the only line breaks of the output are CRLF; the last line has no terminator of
  its own: with one CRLF added, every line is terminated by CRLF.
\<close>

theorem eml_line_structure:
  "\<exists>hs body.
     buildEmlFromMessage env m = Inr (joinWith CRLF hs @ CRLF @ CRLF @ body) \<and>
     hs \<noteq> [] \<and> list_all (\<lambda>h. h \<noteq> [] \<and> lineSafe h) hs \<and> \<not> prefix CRLF body \<and>
     (list_all cleanAttachment (attachmentsOf m) \<longrightarrow>
        crlfOnly (joinWith CRLF hs @ CRLF @ CRLF @ body) \<and>
        linesTerminated (joinWith CRLF hs @ CRLF @ CRLF @ body @ CRLF))"
proof -
  obtain hs body where b: "buildEmlFromMessage env m = Inr (joinWith CRLF hs @ CRLF @ CRLF @ body)"
    "hs \<noteq> []" "\<forall>h \<in> set hs. h \<noteq> [] \<and> lineSafe h" "\<not> prefix CRLF body"
    "(\<forall>a \<in> set (attachmentsOf m). cleanAttachment a) \<longrightarrow> crlfOnly body"
    using buildEmlFromMessage_ok[of env m] by blast
  have h: "crlfOnly (joinWith CRLF hs)"
    using b(3) by (intro crlfOnly_joinWith) (simp add: crlfOnly_lineSafe)
  have c: "list_all cleanAttachment (attachmentsOf m) \<longrightarrow>
        crlfOnly (joinWith CRLF hs @ CRLF @ CRLF @ body) \<and>
        linesTerminated (joinWith CRLF hs @ CRLF @ CRLF @ body @ CRLF)"
  proof
    assume "list_all cleanAttachment (attachmentsOf m)"
    then have cb: "crlfOnly body" using b(5) by (simp add: list_all_iff)
    have 1: "crlfOnly (joinWith CRLF hs @ CRLF @ CRLF @ body)"
      using h cb by (intro crlfOnly_append) simp_all
    have 2: "crlfOnly (joinWith CRLF hs @ CRLF @ CRLF @ body @ CRLF)"
      using h cb by (intro crlfOnly_append) simp_all
    have 3: "suffix CRLF (joinWith CRLF hs @ CRLF @ CRLF @ body @ CRLF)"
      by (simp add: suffix_def)
    show "crlfOnly (joinWith CRLF hs @ CRLF @ CRLF @ body) \<and>
        linesTerminated (joinWith CRLF hs @ CRLF @ CRLF @ body @ CRLF)"
      using 1 2 3 by (simp add: linesTerminated_def)
  qed
  have l: "list_all (\<lambda>h. h \<noteq> [] \<and> lineSafe h) hs" using b(3) by (simp add: list_all_iff)
  show ?thesis using b(1,2,4) l c by blast
qed

theorem eml_line_structure_witness:
  "list_all cleanAttachment
     (attachmentsOf (emptyMessage\<lparr>bodyContent := Some (js ''a'' @ [0x0A] @ js ''b'' @ [0x0D] @ js ''c'')\<rparr>)) \<and>
   (\<exists>hs body.
     buildEmlFromMessage noEntropy
       (emptyMessage\<lparr>bodyContent := Some (js ''a'' @ [0x0A] @ js ''b'' @ [0x0D] @ js ''c'')\<rparr>) =
       Inr (joinWith CRLF hs @ CRLF @ CRLF @ body) \<and>
     hs \<noteq> [] \<and> list_all (\<lambda>h. h \<noteq> [] \<and> lineSafe h) hs \<and> \<not> prefix CRLF body \<and>
     crlfOnly (joinWith CRLF hs @ CRLF @ CRLF @ body) \<and>
     linesTerminated (joinWith CRLF hs @ CRLF @ CRLF @ body @ CRLF))"
proof -
  let ?m = "emptyMessage\<lparr>bodyContent := Some (js ''a'' @ [0x0A] @ js ''b'' @ [0x0D] @ js ''c'')\<rparr>"
  have c: "list_all cleanAttachment (attachmentsOf ?m)"
    by (simp add: attachmentsOf_def emptyMessage_def)
  show ?thesis
    using eml_line_structure[of noEntropy ?m] c by blast
qed

text \<open>
  C9 as stated fails twice. The last line of the output has no CRLF after it: the
  example message ends with its payload \<open>SGk=\<close>. And an attachment's MIME tag is
  written as it is: a tag that holds a bare LF puts a bare LF into the output.
\<close>

theorem eml_line_breaks_counterexample:
  "buildEmlFromMessage noEntropy helloMessage =
     Inr (joinWith CRLF
            [js ''Subject: Hello'', js ''From: <a@x.com>'', js ''To: <b@y.com>'', js ''MIME-Version: 1.0'',
             js ''Content-Type: text/plain; charset='' @ [0x22] @ js ''utf-8'' @ [0x22],
             js ''Content-Transfer-Encoding: base64''] @
          CRLF @ CRLF @ js ''SGk='') \<and>
   \<not> linesTerminated
       (joinWith CRLF
            [js ''Subject: Hello'', js ''From: <a@x.com>'', js ''To: <b@y.com>'', js ''MIME-Version: 1.0'',
             js ''Content-Type: text/plain; charset='' @ [0x22] @ js ''utf-8'' @ [0x22],
             js ''Content-Transfer-Encoding: base64''] @
          CRLF @ CRLF @ js ''SGk='') \<and>
   buildEmlFromMessage noEntropy
     (emptyMessage\<lparr>attachments := Some
        [\<lparr>attachMimeTag = Some (js ''a'' @ 0x0A # js ''b''), att_fileName = None,
          contentBase64 = Some (js ''AAAA''), contentId = None\<rparr>]\<rparr>) =
     Inr (joinWith CRLF
            [js ''MIME-Version: 1.0'',
             js ''Content-Type: multipart/mixed; boundary='' @ [0x22] @ js ''mixed-0-'' @ [0x22]] @
          CRLF @ CRLF @
          joinWith CRLF
            [js ''--mixed-0-'',
             js ''Content-Type: text/plain; charset='' @ [0x22] @ js ''utf-8'' @ [0x22],
             js ''Content-Transfer-Encoding: base64'',
             [],
             [],
             js ''--mixed-0-'',
             js ''Content-Type: a'' @ [0x0A] @ js ''b; name='' @ [0x22] @ js ''attachment'' @ [0x22],
             js ''Content-Transfer-Encoding: base64'',
             js ''Content-Disposition: attachment; filename='' @ [0x22] @ js ''attachment'' @ [0x22],
             [],
             js ''AAAA'',
             js ''--mixed-0---'']) \<and>
   \<not> crlfOnly
       (joinWith CRLF
            [js ''MIME-Version: 1.0'',
             js ''Content-Type: multipart/mixed; boundary='' @ [0x22] @ js ''mixed-0-'' @ [0x22]] @
          CRLF @ CRLF @
          joinWith CRLF
            [js ''--mixed-0-'',
             js ''Content-Type: text/plain; charset='' @ [0x22] @ js ''utf-8'' @ [0x22],
             js ''Content-Transfer-Encoding: base64'',
             [],
             [],
             js ''--mixed-0-'',
             js ''Content-Type: a'' @ [0x0A] @ js ''b; name='' @ [0x22] @ js ''attachment'' @ [0x22],
             js ''Content-Transfer-Encoding: base64'',
             js ''Content-Disposition: attachment; filename='' @ [0x22] @ js ''attachment'' @ [0x22],
             [],
             js ''AAAA'',
             js ''--mixed-0---''])"
proof -
  let ?a = "\<lparr>attachMimeTag = Some (js ''a'' @ 0x0A # js ''b''), att_fileName = None,
          contentBase64 = Some (js ''AAAA''), contentId = None\<rparr>"
  let ?m = "emptyMessage\<lparr>attachments := Some [?a]\<rparr>"
  have 1: "\<not> linesTerminated
       (joinWith CRLF
            [js ''Subject: Hello'', js ''From: <a@x.com>'', js ''To: <b@y.com>'', js ''MIME-Version: 1.0'',
             js ''Content-Type: text/plain; charset='' @ [0x22] @ js ''utf-8'' @ [0x22],
             js ''Content-Transfer-Encoding: base64''] @
          CRLF @ CRLF @ js ''SGk='')"
    by (simp add: linesTerminated_def js_def CRLF_def suffix_to_prefix)
  have h: "commonHeaders noEntropy ?m = Inr [js ''MIME-Version: 1.0'']"
    by (simp add: eval_defs)
  have b: "makeBoundary noEntropy 0 (js ''mixed'') = js ''mixed-0-''"
    by (simp add: makeBoundary_def noEntropy_def showNat.simps digitChar_def js_def)
  have t: "normalizeLineEndings (Some (strOr (bodyContent ?m) [])) = []"
      "normalizeLineEndings (Some (strOr (bodyContentHTML ?m) [])) = []"
      "attachments ?m = Some [?a]"
    by (simp_all add: eval_defs)
  have tr: "trim [] = []" by (simp add: trim_def)
  have n: "normalizeLineEndings (Some []) = []" by (simp add: eval_defs)
  have w0: "wrapBase64 (b64enc (textEncode [])) = []"
    by (simp add: textEncode_def wrapBase64_def)
  have p: "buildAttachmentPart ?a =
     Some [js ''Content-Type: a'' @ [0x0A] @ js ''b; name='' @ [0x22] @ js ''attachment'' @ [0x22],
           js ''Content-Transfer-Encoding: base64'',
           js ''Content-Disposition: attachment; filename='' @ [0x22] @ js ''attachment'' @ [0x22],
           [],
           js ''AAAA'']"
    by (simp add: buildAttachmentPart_def extractBase64_def wrapBase64_def wrapLines.simps slice_def
        BASE64_LINE_LENGTH_def eval_defs)
  have pa: "pushAttachments B [?a] L =
     L @ [js ''--'' @ B] @
       [js ''Content-Type: a'' @ [0x0A] @ js ''b; name='' @ [0x22] @ js ''attachment'' @ [0x22],
        js ''Content-Transfer-Encoding: base64'',
        js ''Content-Disposition: attachment; filename='' @ [0x22] @ js ''attachment'' @ [0x22],
        [],
        js ''AAAA'']" for B L
    by (simp add: p)
  have fp: "buildTextPart [] (js ''text/plain'') =
     Inr [js ''Content-Type: text/plain; charset='' @ [0x22] @ js ''utf-8'' @ [0x22],
          js ''Content-Transfer-Encoding: base64'', [], []]"
    unfolding buildTextPart_eq n w0 by (simp add: js_def)
  have l: "buildEmlLines noEntropy ?m =
     Inr ([js ''MIME-Version: 1.0'',
           js ''Content-Type: multipart/mixed; boundary='' @ [0x22] @ js ''mixed-0-'' @ [0x22]],
          [js ''--mixed-0-'',
             js ''Content-Type: text/plain; charset='' @ [0x22] @ js ''utf-8'' @ [0x22],
             js ''Content-Transfer-Encoding: base64'',
             [],
             [],
             js ''--mixed-0-'',
             js ''Content-Type: a'' @ [0x0A] @ js ''b; name='' @ [0x22] @ js ''attachment'' @ [0x22],
             js ''Content-Transfer-Encoding: base64'',
             js ''Content-Disposition: attachment; filename='' @ [0x22] @ js ''attachment'' @ [0x22],
             [],
             js ''AAAA'',
             js ''--mixed-0---''])"
    unfolding buildEmlLines_def h bindE_Inr Let_def t tr b
    by (simp add: fp pa p) (simp add: js_def)
  have 2: "buildEmlFromMessage noEntropy ?m =
     Inr (joinWith CRLF
            [js ''MIME-Version: 1.0'',
             js ''Content-Type: multipart/mixed; boundary='' @ [0x22] @ js ''mixed-0-'' @ [0x22]] @
          CRLF @ CRLF @
          joinWith CRLF
            [js ''--mixed-0-'',
             js ''Content-Type: text/plain; charset='' @ [0x22] @ js ''utf-8'' @ [0x22],
             js ''Content-Transfer-Encoding: base64'',
             [],
             [],
             js ''--mixed-0-'',
             js ''Content-Type: a'' @ [0x0A] @ js ''b; name='' @ [0x22] @ js ''attachment'' @ [0x22],
             js ''Content-Transfer-Encoding: base64'',
             js ''Content-Disposition: attachment; filename='' @ [0x22] @ js ''attachment'' @ [0x22],
             [],
             js ''AAAA'',
             js ''--mixed-0---''])"
    unfolding buildEmlFromMessage_def l bindE_Inr by simp
  have 3: "\<not> crlfOnly
       (joinWith CRLF
            [js ''MIME-Version: 1.0'',
             js ''Content-Type: multipart/mixed; boundary='' @ [0x22] @ js ''mixed-0-'' @ [0x22]] @
          CRLF @ CRLF @
          joinWith CRLF
            [js ''--mixed-0-'',
             js ''Content-Type: text/plain; charset='' @ [0x22] @ js ''utf-8'' @ [0x22],
             js ''Content-Transfer-Encoding: base64'',
             [],
             [],
             js ''--mixed-0-'',
             js ''Content-Type: a'' @ [0x0A] @ js ''b; name='' @ [0x22] @ js ''attachment'' @ [0x22],
             js ''Content-Transfer-Encoding: base64'',
             js ''Content-Disposition: attachment; filename='' @ [0x22] @ js ''attachment'' @ [0x22],
             [],
             js ''AAAA'',
             js ''--mixed-0---''])"
    by (simp add: js_def CRLF_def isCrLf_def)
  show ?thesis using hello_eml[of noEntropy] 1 2 3 by blast
qed

end
